theory Spec2Isabelle
  imports Complex_Main "HOL-Library.AList" "HOL-Library.Log_Nat"
begin

section \<open>Errors\<close>

text \<open>
  The routing grid and fill modules signal every failure by raising. Each raise site of
  the modelled functions is one constructor; all but the last five are Python
  \<open>ValueError\<close>s, told apart by their message.
\<close>

datatype error =
    MinFillGtMax          \<comment> \<open>'min fill length = %d > %d = max fill length'\<close>
  | MinFillGeMax          \<comment> \<open>'min fill length = %d >= %d = max fill length'\<close>
  | NoFillSolution        \<comment> \<open>'No fill solution found'\<close>
  | ZeroSpaceBlocks       \<comment> \<open>'Cannot draw 0 spaces blocks with nonzero spacing.'\<close>
  | BlockLenLeZero        \<comment> \<open>'Cannot fill with block less <= 0.'\<close>
  | CyclicOddSpace        \<comment> \<open>'Cannot fill cyclic area with odd space on edge.'\<close>
  | NotOnTrack            \<comment> \<open>'coordinate %.4g is not on track.'\<close>
  | LayerExists           \<comment> \<open>'Layer %d already on routing grid.'\<close>
  | LengthMismatch        \<comment> \<open>'spaces length = %d != %d' and its siblings\<close>
  | FillSpacingTooSmall   \<comment> \<open>'Power fill spacing less then min spacing = %d'\<close>
  | RangeStepZero         \<comment> \<open>'range() arg 3 must not be zero'\<close>
  | NaNToInteger          \<comment> \<open>'cannot convert float NaN to integer'\<close>
  | ZeroDivisionError
  | OverflowError
  | KeyError
  | IndexError
  | TypeError

section \<open>Symmetric interval packing (fill.py)\<close>

type_synonym intv = "int \<times> int"

record fill_info =
  fi_fill_area :: int
  fi_same_sp :: bool
  fi_blk0 :: int
  fi_blk1 :: int
  fi_k :: int
  fi_m :: int
  fi_mid_blk_len :: int
  fi_mid_sp_len :: int

text \<open>
  \<open>_fill_symmetric_info\<close>: block lengths, their counts and the middle block or space.
  \<open>divmod\<close> by a zero block count raises \<open>ZeroDivisionError\<close>.
\<close>

definition fill_symmetric_info ::
  "int \<Rightarrow> int \<Rightarrow> int \<Rightarrow> bool \<Rightarrow> bool \<Rightarrow> bool \<Rightarrow> error + fill_info" where
  "fill_symmetric_info tot_area num_blk_tot sp inc_sp fill_on_edge cyclic =
    (let adj_sp_sgn = (if inc_sp then 1 else - 1 :: int);
         num_sp_tot = (if cyclic then num_blk_tot
                       else if fill_on_edge then num_blk_tot - 1 else num_blk_tot + 1);
         fill_area = tot_area - num_sp_tot * sp
     in if num_sp_tot = 0 \<and> sp \<noteq> 0 then Inl ZeroSpaceBlocks
        else if num_blk_tot = 0 then Inl ZeroDivisionError
        else
          let blk_len = fill_area div num_blk_tot;
              num_blk1 = fill_area mod num_blk_tot
          in if blk_len \<le> 0 then Inl BlockLenLeZero
             else
               let num_blk_tot = (if cyclic \<and> fill_on_edge then num_blk_tot + 1 else num_blk_tot);
                   even_odd = num_blk_tot mod 2 = 0 \<and> num_blk1 mod 2 = 1;
                   mid_sp_len = (if num_blk_tot mod 2 = 0
                                 then (if even_odd then sp + adj_sp_sgn else sp) else - 1);
                   same_sp = (\<not> even_odd);
                   fill_area = (if even_odd then fill_area - adj_sp_sgn else fill_area);
                   mid_blk_len = (if num_blk_tot mod 2 = 0 then - 1
                                  else if num_blk1 mod 2 = 1 then blk_len + 1 else blk_len);
                   num_blk1 = (if even_odd then num_blk1 - adj_sp_sgn else num_blk1);
                   num_large = num_blk1 div 2;
                   num_small = (num_blk_tot - num_blk1) div 2;
                   m = num_large + num_small
               in if cyclic \<and> \<not> fill_on_edge \<and> sp mod 2 = 1 then Inl CyclicOddSpace
                  else
                    let (blk0, blk1, k) =
                          (if cyclic \<and> fill_on_edge then
                             (if blk_len mod 2 = 0 then (blk_len + 1, blk_len, num_small)
                              else (blk_len, blk_len + 1, num_large))
                           else
                             (if num_large \<ge> num_small then (blk_len, blk_len + 1, num_large)
                              else (blk_len + 1, blk_len, num_small)))
                    in Inr \<lparr> fi_fill_area = fill_area, fi_same_sp = same_sp,
                             fi_blk0 = blk0, fi_blk1 = blk1, fi_k = k, fi_m = m,
                             fi_mid_blk_len = mid_blk_len, fi_mid_sp_len = mid_sp_len \<rparr>)"

text \<open>
  The first loop of \<open>_fill_symmetric_helper\<close>, \<open>for _ in range(m)\<close>: the state is the
  list built so far, the marker and the two cumulative sums; \<open>n\<close> counts the iterations
  that remain.
\<close>

fun fill_loop ::
  "nat \<Rightarrow> int \<Rightarrow> int \<Rightarrow> int \<Rightarrow> int \<Rightarrow> int \<Rightarrow> bool \<Rightarrow> bool \<Rightarrow>
   intv list \<Rightarrow> int \<Rightarrow> int \<Rightarrow> int \<Rightarrow> intv list \<times> int" where
  "fill_loop 0 blk0 blk1 k m sp invert fill_on_edge ans marker cur_sum prev_sum = (ans, marker)"
| "fill_loop (Suc n) blk0 blk1 k m sp invert fill_on_edge ans marker cur_sum prev_sum =
    (let cur_len = (if cur_sum < prev_sum then blk1 else blk0);
         new = (if invert then
                  (if fill_on_edge then (marker + cur_len, marker + sp + cur_len)
                   else (marker, marker + sp))
                else
                  (if fill_on_edge then (marker, marker + cur_len)
                   else (marker + sp, marker + sp + cur_len)))
     in fill_loop n blk0 blk1 k m sp invert fill_on_edge (ans @ [new])
          (marker + (cur_len + sp)) ((cur_sum + k) mod m) cur_sum)"

text \<open>The second loop: the mirror images of the first \<open>half_len\<close> entries, last first.\<close>

definition mirror_half :: "int \<Rightarrow> nat \<Rightarrow> intv list \<Rightarrow> intv list" where
  "mirror_half shift half_len ans =
     map (\<lambda>(start, stop). (shift - stop, shift - start)) (rev (take half_len ans))"

text \<open>
  \<open>_fill_symmetric_helper\<close>. \<open>del ans[-1]\<close> on an empty list raises \<open>IndexError\<close>.
\<close>

definition fill_symmetric_helper ::
  "int \<Rightarrow> int \<Rightarrow> int \<Rightarrow> int \<Rightarrow> bool \<Rightarrow> bool \<Rightarrow> bool \<Rightarrow> bool \<Rightarrow> error + (intv list \<times> bool)" where
  "fill_symmetric_helper tot_area num_blk_tot sp offset inc_sp invert fill_on_edge cyclic =
    (case fill_symmetric_info tot_area num_blk_tot sp inc_sp fill_on_edge cyclic of
       Inl e \<Rightarrow> Inl e
     | Inr fi \<Rightarrow>
        (let blk0 = fi_blk0 fi; blk1 = fi_blk1 fi; k = fi_k fi; m = fi_m fi;
             mid_blk_len = fi_mid_blk_len fi; mid_sp_len = fi_mid_sp_len fi;
             marker0 = (if cyclic then
                          (if fill_on_edge then offset - blk1 div 2 else offset - sp div 2)
                        else offset);
             (ans, marker) = fill_loop (nat m) blk0 blk1 k m sp invert fill_on_edge [] marker0 0 1;
             shift = tot_area + offset * 2
         in if mid_blk_len \<ge> 0 then
              (if invert then
                 (let ans = (if \<not> fill_on_edge then ans @ [(marker, marker + sp)] else ans)
                  in Inr (ans @ mirror_half shift (length ans) ans, fi_same_sp fi))
               else
                 (let half_len = length ans;
                      ans = (if fill_on_edge then ans @ [(marker, marker + mid_blk_len)]
                             else ans @ [(marker + sp, marker + sp + mid_blk_len)])
                  in Inr (ans @ mirror_half shift half_len ans, fi_same_sp fi)))
            else
              (if invert then
                 (if fill_on_edge then
                    (if ans = [] then Inl IndexError
                     else
                       (let ans = butlast ans; marker = marker - sp; half_len = length ans;
                            ans = ans @ [(marker, marker + mid_sp_len)]
                        in Inr (ans @ mirror_half shift half_len ans, fi_same_sp fi)))
                  else
                    (let half_len = length ans;
                         ans = ans @ [(marker, marker + mid_sp_len)]
                     in Inr (ans @ mirror_half shift half_len ans, fi_same_sp fi)))
               else Inr (ans @ mirror_half shift (length ans) ans, fi_same_sp fi))))"

text \<open>
  Step 1 of \<open>fill_symmetric_max\<close>, \<open>for blk_len_max in range(n_max, n_min - 1, -1)\<close>
  with its \<open>break\<close>: the result is the last block length tried with its block and space
  counts. It is entered with \<open>n_min < n_max\<close>, so the range is not empty.
\<close>

function max_blk_search ::
  "int \<Rightarrow> int \<Rightarrow> int \<Rightarrow> bool \<Rightarrow> int \<Rightarrow> error + (int \<times> int \<times> int)" where
  "max_blk_search area n_min sp_min cyclic blk_len_max =
    (if blk_len_max + sp_min = 0 then Inl ZeroDivisionError
     else
       let num_blk_min = (if cyclic then area div (blk_len_max + sp_min)
                          else (area + sp_min) div (blk_len_max + sp_min));
           num_sp_min = (if cyclic then num_blk_min else num_blk_min - 1)
       in if num_blk_min > 0 \<and> num_sp_min > 0 then Inr (blk_len_max, num_blk_min, num_sp_min)
          else if blk_len_max - 1 > n_min - 1
               then max_blk_search area n_min sp_min cyclic (blk_len_max - 1)
               else Inr (blk_len_max, num_blk_min, num_sp_min))"
  by pat_completeness auto
termination
  by (relation "measure (\<lambda>(area, n_min, sp_min, cyclic, blk_len_max). nat (blk_len_max - n_min))")
     auto

declare max_blk_search.simps [simp del]

definition fill_symmetric_max ::
  "int \<Rightarrow> int \<Rightarrow> int \<Rightarrow> int \<Rightarrow> int \<Rightarrow> bool \<Rightarrow> error + intv list" where
  "fill_symmetric_max area n_min n_max sp_min offset cyclic =
    (if n_min \<ge> n_max then Inl MinFillGeMax
     else if n_min \<le> area \<and> area \<le> n_max \<and> \<not> cyclic then Inr [(offset, offset + area)]
     else
       case max_blk_search area n_min sp_min cyclic n_max of
         Inl e \<Rightarrow> Inl e
       | Inr (blk_len_max, num_blk_min, num_sp_min) \<Rightarrow>
           if num_blk_min \<le> 0 \<or> num_sp_min \<le> 0 then Inr []
           else
             let min_space_with_max_blk = area - num_blk_min * blk_len_max
             in if min_space_with_max_blk \<le> (num_sp_min + 1) * sp_min then
                  map_sum id fst
                    (fill_symmetric_helper area num_sp_min blk_len_max offset
                       (blk_len_max < n_max) True cyclic cyclic)
                else
                  let min_blk_len = (area - (num_sp_min + 1) * sp_min) div (num_blk_min + 1)
                  in if min_blk_len < n_min then Inl NoFillSolution
                     else
                       map_sum id fst
                         (fill_symmetric_helper area (num_blk_min + 1) sp_min offset
                            True False (\<not> cyclic) cyclic))"

text \<open>
  \<open>fill_symmetric_const_space\<close>. The three integer divisions raise
  \<open>ZeroDivisionError\<close> on a zero divisor.
\<close>

definition fill_symmetric_const_space ::
  "int \<Rightarrow> int \<Rightarrow> int \<Rightarrow> int \<Rightarrow> int \<Rightarrow> error + intv list" where
  "fill_symmetric_const_space area sp_max n_min n_max offset =
    (if n_min > n_max then Inl MinFillGtMax
     else if n_max + sp_max = 0 then Inl ZeroDivisionError
     else
       let num_fill = - ((- (area - sp_max)) div (n_max + sp_max))
       in if num_fill = 0 then Inr []
          else
            let blk_len = (area - (num_fill + 1) * sp_max) div num_fill
            in if blk_len \<ge> n_min then
                 map_sum id fst
                   (fill_symmetric_helper area num_fill sp_max offset False False False False)
               else if num_fill + 1 = 0 then Inl ZeroDivisionError
               else
                 let sp_max = (area - num_fill * n_min) div (num_fill + 1);
                     remainder = (area - num_fill * n_min) mod (num_fill + 1)
                 in if n_max > n_min \<or> remainder = 0 then
                      map_sum id fst
                        (fill_symmetric_helper area num_fill sp_max offset False False False False)
                    else
                      case fill_symmetric_helper area (num_fill + 1) n_max offset
                             False True True False of
                        Inl e \<Rightarrow> Inl e
                      | Inr (sol, same_sp) \<Rightarrow>
                          if same_sp then Inr sol
                          else
                            map_sum id fst
                              (fill_symmetric_helper area (num_fill + 2) n_max offset
                                 False True True False))"


text \<open>Properties of an interval list: the lengths, the gaps between neighbours, the mirror image.\<close>

definition intv_lens :: "intv list \<Rightarrow> int list" where
  "intv_lens bs = map (\<lambda>(start, stop). stop - start) bs"

definition intv_gaps :: "intv list \<Rightarrow> int list" where
  "intv_gaps bs = map (\<lambda>((s1, e1), (s2, e2)). s2 - e1) (zip bs (tl bs))"

definition reflect :: "int \<Rightarrow> intv list \<Rightarrow> intv list" where
  "reflect shift bs = map (\<lambda>(start, stop). (shift - stop, shift - start)) bs"

section \<open>The routing grid (grid.py)\<close>

text \<open>
  \<open>_gcd\<close>: Euclid's loop \<open>while b: a, b = b, a % b\<close>. Python's \<open>%\<close> takes the sign of
  the divisor, as \<open>mod\<close> on \<open>int\<close> does, so \<open>|b|\<close> decreases.
\<close>

function gcd_py :: "int \<Rightarrow> int \<Rightarrow> int" where
  "gcd_py a b = (if b \<noteq> 0 then gcd_py b (a mod b) else a)"
  by pat_completeness auto
termination
  by (relation "measure (\<lambda>(a, b). nat \<bar>b\<bar>)") (auto simp: abs_mod_less)

declare gcd_py.simps [simp del]

text \<open>\<open>_lcm\<close>: the running least common multiple; \<open>//\<close> raises on a zero gcd.\<close>

fun lcm_py :: "int list \<Rightarrow> int \<Rightarrow> error + int" where
  "lcm_py [] cur_lcm = Inr cur_lcm"
| "lcm_py (val # arr) cur_lcm =
     (if gcd_py cur_lcm val = 0 then Inl ZeroDivisionError
      else lcm_py arr (cur_lcm * val div gcd_py cur_lcm val))"

text \<open>
  The per-layer tables of \<open>RoutingGrid\<close>, each a dictionary keyed by the layer id, and
  the sorted list of layer ids. Widths, spaces, offsets and pitches are in resolution
  units.
\<close>

record RoutingGrid =
  layers :: "int list"
  sp_tracks :: "int \<rightharpoonup> int"
  w_tracks :: "int \<rightharpoonup> int"
  offset_tracks :: "int \<rightharpoonup> int"
  dir_tracks :: "int \<rightharpoonup> string"
  max_num_tr_tracks :: "int \<rightharpoonup> int"
  block_pitch :: "int \<rightharpoonup> int"

definition empty_grid :: RoutingGrid where
  "empty_grid = \<lparr> layers = [], sp_tracks = Map.empty, w_tracks = Map.empty,
                   offset_tracks = Map.empty, dir_tracks = Map.empty,
                   max_num_tr_tracks = Map.empty, block_pitch = Map.empty \<rparr>"

text \<open>
  \<open>add_new_layer\<close>. The source receives the space and the width as floats in layout
  units and stores \<open>2 * int(round(x / (2 * resolution)))\<close>; the model receives the two
  rounded quotients \<open>sp_half\<close> and \<open>w_half\<close>, so the stored values are twice an integer,
  as in the source.
\<close>

definition add_new_layer ::
  "RoutingGrid \<Rightarrow> int \<Rightarrow> int \<Rightarrow> int \<Rightarrow> string \<Rightarrow> int \<Rightarrow> bool \<Rightarrow> bool \<Rightarrow> error + RoutingGrid" where
  "add_new_layer g layer_id sp_half w_half direction max_num_tr share_track override =
    (if sp_tracks g layer_id \<noteq> None \<and> \<not> override then Inl LayerExists
     else
       let lays = (if sp_tracks g layer_id \<noteq> None then layers g
                   else sort (layers g @ [layer_id]));
           sp_unit = 2 * sp_half;
           w_unit = 2 * w_half;
           offset = (if share_track then 0 else (sp_unit + w_unit) div 2)
       in Inr (g\<lparr> layers := lays,
                  sp_tracks := (sp_tracks g)(layer_id \<mapsto> sp_unit),
                  w_tracks := (w_tracks g)(layer_id \<mapsto> w_unit),
                  dir_tracks := (dir_tracks g)(layer_id \<mapsto> direction),
                  max_num_tr_tracks := (max_num_tr_tracks g)(layer_id \<mapsto> max_num_tr),
                  offset_tracks := (offset_tracks g)(layer_id \<mapsto> offset) \<rparr>))"

text \<open>
  The generator \<open>(p for idx, p in enumerate(pitch_list) if
  self.dir_tracks[self.layers[idx]] == cur_dir)\<close> of \<open>update_block_pitch\<close>.
\<close>

fun bot_pitch_iter :: "RoutingGrid \<Rightarrow> string \<Rightarrow> (nat \<times> int) list \<Rightarrow> error + int list" where
  "bot_pitch_iter g cur_dir [] = Inr []"
| "bot_pitch_iter g cur_dir ((idx, p) # rest) =
     (if idx \<ge> length (layers g) then Inl IndexError
      else case dir_tracks g (layers g ! idx) of
             None \<Rightarrow> Inl KeyError
           | Some d \<Rightarrow>
               (case bot_pitch_iter g cur_dir rest of
                  Inl e \<Rightarrow> Inl e
                | Inr ps \<Rightarrow> Inr (if d = cur_dir then p # ps else ps)))"

text \<open>The loop \<open>for lay in self.layers\<close> of \<open>update_block_pitch\<close>.\<close>

fun update_block_pitch_loop :: "RoutingGrid \<Rightarrow> int list \<Rightarrow> int list \<Rightarrow> error + RoutingGrid" where
  "update_block_pitch_loop g [] pitch_list = Inr g"
| "update_block_pitch_loop g (lay # rest) pitch_list =
    (case sp_tracks g lay of
       None \<Rightarrow> Inl KeyError
     | Some sp \<Rightarrow>
        (case w_tracks g lay of
           None \<Rightarrow> Inl KeyError
         | Some w \<Rightarrow>
            (case dir_tracks g lay of
               None \<Rightarrow> Inl KeyError
             | Some cur_dir \<Rightarrow>
                (case (if pitch_list \<noteq> [] then
                         (case bot_pitch_iter g cur_dir (enumerate 0 pitch_list) of
                            Inl e \<Rightarrow> Inl e
                          | Inr ps \<Rightarrow> lcm_py ps (sp + w))
                       else Inr (sp + w)) of
                   Inl e \<Rightarrow> Inl e
                 | Inr cur_blk_pitch \<Rightarrow>
                     update_block_pitch_loop
                       (g\<lparr> block_pitch := (block_pitch g)(lay \<mapsto> cur_blk_pitch) \<rparr>)
                       rest (pitch_list @ [cur_blk_pitch])))))"

definition update_block_pitch :: "RoutingGrid \<Rightarrow> error + RoutingGrid" where
  "update_block_pitch g = update_block_pitch_loop g (layers g) []"

text \<open>
  \<open>RoutingGrid.__init__\<close>: the loop over \<open>zip(layers, spaces, widths, max_num_tr)\<close> that
  alternates the track direction, then \<open>update_block_pitch\<close>. \<open>max_num_tr\<close> is an
  integer (\<open>Inl\<close>) or a list (\<open>Inr\<close>).
\<close>

fun add_layers ::
  "RoutingGrid \<Rightarrow> (int \<times> int \<times> int \<times> int) list \<Rightarrow> string \<Rightarrow> error + RoutingGrid" where
  "add_layers g [] cur_dir = Inr g"
| "add_layers g ((lay, sp, w, max_num) # rest) cur_dir =
     (case add_new_layer g lay sp w cur_dir max_num False False of
        Inl e \<Rightarrow> Inl e
      | Inr g' \<Rightarrow> add_layers g' rest (if cur_dir = ''x'' then ''y'' else ''x''))"

definition RoutingGrid_init ::
  "int list \<Rightarrow> int list \<Rightarrow> int list \<Rightarrow> string \<Rightarrow> int + int list \<Rightarrow> error + RoutingGrid" where
  "RoutingGrid_init layer_ids spaces widths bot_dir max_num_tr =
    (let num_layer = length layer_ids
     in if length spaces \<noteq> num_layer then Inl LengthMismatch
        else if length widths \<noteq> num_layer then Inl LengthMismatch
        else
          case (case max_num_tr of
                  Inl n \<Rightarrow> Inr (replicate num_layer n)
                | Inr ns \<Rightarrow> if length ns \<noteq> num_layer then Inl LengthMismatch else Inr ns) of
            Inl e \<Rightarrow> Inl e
          | Inr ns \<Rightarrow>
              (case add_layers empty_grid (zip layer_ids (zip spaces (zip widths ns))) bot_dir of
                 Inl e \<Rightarrow> Inl e
               | Inr g \<Rightarrow> update_block_pitch g))"

text \<open>Python's \<open>round\<close> (ties to even) and \<open>int\<close> (truncation towards zero) on a rational.\<close>

definition py_round :: "rat \<Rightarrow> int" where
  "py_round x =
     (let f = \<lfloor>x\<rfloor>; d = x - of_int f
      in if d < 1 / 2 then f else if d > 1 / 2 then f + 1 else if even f then f else f + 1)"

definition py_int :: "rat \<Rightarrow> int" where
  "py_int x = (if x \<ge> 0 then \<lfloor>x\<rfloor> else \<lceil>x\<rceil>)"

section \<open>Floating point (Python \<open>float\<close>)\<close>

text \<open>
  A Python \<open>float\<close> is an IEEE 754 double: a rational \<open>m * 2 ^ e\<close> with \<open>|m| < 2 ^ 53\<close>
  and \<open>- 1074 \<le> e\<close> that is below \<open>2 ^ 1024\<close> in magnitude, an infinity (the flag tells
  the negative one) or a NaN. The two zeros are one value: they compare equal, and the
  functions below never divide by a computed result.
\<close>

datatype pyfloat = Finite rat | Infinite bool | NaN

text \<open>The exponent of the leading bit of a positive rational, \<open>\<lfloor>log\<^sub>2 x\<rfloor>\<close>.\<close>

definition floor_log2 :: "rat \<Rightarrow> int" where
  "floor_log2 x =
     (let (n, d) = quotient_of x; k = bitlen n - bitlen d
      in if 2 powi k \<le> x then k else k - 1)"

text \<open>
  The double nearest to an exact result, ties to the even significand, the exponent
  not bounded from above. The spacing of the doubles around \<open>x\<close> is \<open>2 ^ (e - 52)\<close> for
  the exponent \<open>e\<close> of \<open>x\<close>, and \<open>2 ^ - 1074\<close> in the subnormal range.
\<close>

definition round_double :: "rat \<Rightarrow> rat" where
  "round_double x =
     (if x = 0 then 0
      else
        let e = max (floor_log2 \<bar>x\<bar>) (- 1022);
            ulp = 2 powi (e - 52)
        in of_int (py_round (x / ulp)) * ulp)"

text \<open>The result of an arithmetic operation: a rounded value from \<open>2 ^ 1024\<close> on is an infinity.\<close>

definition rounded :: "rat \<Rightarrow> pyfloat" where
  "rounded x =
     (let y = round_double x
      in if \<bar>y\<bar> \<ge> 2 ^ 1024 then Infinite (y < 0) else Finite y)"

fun fmul :: "pyfloat \<Rightarrow> pyfloat \<Rightarrow> pyfloat" where
  "fmul (Finite a) (Finite b) = rounded (a * b)"
| "fmul (Finite a) (Infinite t) = (if a = 0 then NaN else Infinite (t \<noteq> (a < 0)))"
| "fmul (Infinite s) (Finite b) = (if b = 0 then NaN else Infinite (s \<noteq> (b < 0)))"
| "fmul (Infinite s) (Infinite t) = Infinite (s \<noteq> t)"
| "fmul NaN b = NaN"
| "fmul a NaN = NaN"

fun fadd :: "pyfloat \<Rightarrow> pyfloat \<Rightarrow> pyfloat" where
  "fadd (Finite a) (Finite b) = rounded (a + b)"
| "fadd (Finite a) (Infinite t) = Infinite t"
| "fadd (Infinite s) (Finite b) = Infinite s"
| "fadd (Infinite s) (Infinite t) = (if s = t then Infinite s else NaN)"
| "fadd NaN b = NaN"
| "fadd a NaN = NaN"

text \<open>Python's \<open>/\<close> on floats raises on a zero divisor.\<close>

fun fdiv :: "pyfloat \<Rightarrow> pyfloat \<Rightarrow> error + pyfloat" where
  "fdiv a (Finite b) =
     (if b = 0 then Inl ZeroDivisionError
      else Inr (case a of
                  Finite x \<Rightarrow> rounded (x / b)
                | Infinite s \<Rightarrow> Infinite (s \<noteq> (b < 0))
                | NaN \<Rightarrow> NaN))"
| "fdiv (Finite a) (Infinite t) = Inr (Finite 0)"
| "fdiv (Infinite s) (Infinite t) = Inr NaN"
| "fdiv NaN (Infinite t) = Inr NaN"
| "fdiv a NaN = Inr NaN"

text \<open>
  A Python number is an \<open>int\<close> or a \<open>float\<close>. In mixed arithmetic the \<open>int\<close> is converted
  to the nearest double, which raises \<open>OverflowError\<close> when it is too large.
\<close>

datatype pynum = PyInt int | PyFloat pyfloat

definition int_to_float :: "int \<Rightarrow> error + pyfloat" where
  "int_to_float n =
     (case rounded (of_int n) of Finite y \<Rightarrow> Inr (Finite y) | _ \<Rightarrow> Inl OverflowError)"

definition to_float :: "pynum \<Rightarrow> error + pyfloat" where
  "to_float x = (case x of PyInt n \<Rightarrow> int_to_float n | PyFloat f \<Rightarrow> Inr f)"

section \<open>Coordinates and tracks (grid.py)\<close>

text \<open>
  The arguments \<open>coord\<close> and \<open>unit_mode\<close> of \<open>coord_to_track\<close>: \<open>Units c\<close> is the integer
  \<open>c\<close> with \<open>unit_mode=True\<close>, a coordinate in resolution units, as \<open>fill.py\<close> and
  \<open>get_track_index_range\<close> pass it; \<open>Layout x\<close> is the number \<open>x\<close> with the default
  \<open>unit_mode=False\<close>, a coordinate in layout units. A \<open>float\<close> passed with
  \<open>unit_mode=True\<close> is not covered.
\<close>

datatype coord_arg = Units int | Layout pynum

text \<open>
  The first statement of \<open>coord_to_track\<close>,
  \<open>if not unit_mode: coord = int(round(coord / self._resolution))\<close>. The resolution is
  read from the technology object when the grid is built and never changes; it is the
  argument \<open>resolution\<close> here and below. \<open>round\<close> raises on an infinity and on a NaN.
\<close>

definition coord_units :: "pyfloat \<Rightarrow> coord_arg \<Rightarrow> error + int" where
  "coord_units resolution arg =
     (case arg of
        Units c \<Rightarrow> Inr c
      | Layout x \<Rightarrow>
          (case to_float x of
             Inl e \<Rightarrow> Inl e
           | Inr xf \<Rightarrow>
               (case fdiv xf resolution of
                  Inl e \<Rightarrow> Inl e
                | Inr (Finite y) \<Rightarrow> Inr (py_round y)
                | Inr (Infinite s) \<Rightarrow> Inl OverflowError
                | Inr NaN \<Rightarrow> Inl NaNToInteger)))"

text \<open>
  \<open>coord_to_track\<close>. On a track the result is the \<open>int\<close> \<open>q\<close>; halfway between two
  tracks it is the \<open>float\<close> \<open>q + 0.5\<close>. The message of the off-grid error formats the
  coordinate with \<open>%.4g\<close>, which converts it to a \<open>float\<close> first.
\<close>

definition coord_to_track ::
  "RoutingGrid \<Rightarrow> pyfloat \<Rightarrow> int \<Rightarrow> coord_arg \<Rightarrow> error + pynum" where
  "coord_to_track g resolution layer_id arg =
    (case coord_units resolution arg of
       Inl e \<Rightarrow> Inl e
     | Inr coord \<Rightarrow>
        (case sp_tracks g layer_id of
           None \<Rightarrow> Inl KeyError
         | Some sp \<Rightarrow>
            (case w_tracks g layer_id of
               None \<Rightarrow> Inl KeyError
             | Some w \<Rightarrow>
                (let pitch = sp + w
                 in case offset_tracks g layer_id of
                      None \<Rightarrow> Inl KeyError
                    | Some off \<Rightarrow>
                        if pitch = 0 then Inl ZeroDivisionError
                        else
                          let q = (coord - off) div pitch; r = (coord - off) mod pitch
                          in if r = 0 then Inr (PyInt q)
                             else if r = pitch div 2 then
                               (case int_to_float q of
                                  Inl e \<Rightarrow> Inl e
                                | Inr qf \<Rightarrow> Inr (PyFloat (fadd qf (Finite (1 / 2)))))
                             else
                               (case int_to_float coord of
                                  Inl e \<Rightarrow> Inl e
                                | Inr cf \<Rightarrow> Inl NotOnTrack)))))"

text \<open>
  \<open>track_to_coord\<close>: \<open>coord_unit = pitch * track_idx + self.offset_tracks[layer_id]\<close>,
  an \<open>int\<close> for an \<open>int\<close> track index and a \<open>float\<close> otherwise, then
  \<open>coord_unit * self._resolution\<close>, a \<open>float\<close> in layout units.
\<close>

definition track_to_coord ::
  "RoutingGrid \<Rightarrow> pyfloat \<Rightarrow> int \<Rightarrow> pynum \<Rightarrow> error + pyfloat" where
  "track_to_coord g resolution layer_id track_idx =
    (case sp_tracks g layer_id of
       None \<Rightarrow> Inl KeyError
     | Some sp \<Rightarrow>
        (case w_tracks g layer_id of
           None \<Rightarrow> Inl KeyError
         | Some w \<Rightarrow>
            (let pitch = sp + w
             in case track_idx of
                  PyInt n \<Rightarrow>
                    (case offset_tracks g layer_id of
                       None \<Rightarrow> Inl KeyError
                     | Some off \<Rightarrow>
                         (case int_to_float (pitch * n + off) of
                            Inl e \<Rightarrow> Inl e
                          | Inr coord_unit \<Rightarrow> Inr (fmul coord_unit resolution)))
                | PyFloat t \<Rightarrow>
                    (case int_to_float pitch of
                       Inl e \<Rightarrow> Inl e
                     | Inr pitch_f \<Rightarrow>
                         (case offset_tracks g layer_id of
                            None \<Rightarrow> Inl KeyError
                          | Some off \<Rightarrow>
                              (case int_to_float off of
                                 Inl e \<Rightarrow> Inl e
                               | Inr off_f \<Rightarrow>
                                   Inr (fmul (fadd (fmul pitch_f t) off_f) resolution)))))))"


text \<open>\<open>get_wire_bounds\<close> with \<open>unit_mode=True\<close>.\<close>

definition get_wire_bounds :: "RoutingGrid \<Rightarrow> int \<Rightarrow> rat \<Rightarrow> int \<Rightarrow> error + (int \<times> int)" where
  "get_wire_bounds g layer_id tr_idx width =
    (case w_tracks g layer_id of
       None \<Rightarrow> Inl KeyError
     | Some w \<Rightarrow>
        (case sp_tracks g layer_id of
           None \<Rightarrow> Inl KeyError
         | Some sp \<Rightarrow>
            (case offset_tracks g layer_id of
               None \<Rightarrow> Inl KeyError
             | Some off \<Rightarrow>
                 let w_wire = width * w + (width - 1) * sp;
                     center = py_int (tr_idx * of_int (w + sp)) + off;
                     w_half = w_wire div 2
                 in Inr (center - w_half, center + w_half))))"

text \<open>\<open>coord_to_nearest_track\<close> with \<open>unit_mode=True\<close>.\<close>

definition coord_to_nearest_track ::
  "RoutingGrid \<Rightarrow> int \<Rightarrow> int \<Rightarrow> bool \<Rightarrow> int \<Rightarrow> error + rat" where
  "coord_to_nearest_track g layer_id coord half_track mode =
    (case sp_tracks g layer_id of
       None \<Rightarrow> Inl KeyError
     | Some sp \<Rightarrow>
        (case w_tracks g layer_id of
           None \<Rightarrow> Inl KeyError
         | Some w \<Rightarrow>
            (let pitch = (if half_track then (sp + w) div 2 else sp + w)
             in case offset_tracks g layer_id of
                  None \<Rightarrow> Inl KeyError
                | Some off \<Rightarrow>
                    if pitch = 0 then Inl ZeroDivisionError
                    else
                      let q = (coord - off) div pitch; r = (coord - off) mod pitch;
                          q = (if r = 0 then
                                 (if mode = - 2 then q - 1 else if mode = 2 then q + 1 else q)
                               else
                                 (if mode > 0 \<or> (mode = 0 \<and> (of_int r :: rat) \<ge> of_int pitch / 2)
                                  then q + 1 else q))
                      in if \<not> half_track then Inr (of_int q)
                         else if q mod 2 = 0 then Inr (of_int (q div 2))
                         else Inr (of_int q / 2))))"

text \<open>
  \<open>get_track_index_range\<close> with \<open>unit_mode=True\<close>; the result \<open>None\<close> stands for the
  pair \<open>(None, None)\<close> of the source.
\<close>

definition get_track_index_range ::
  "RoutingGrid \<Rightarrow> int \<Rightarrow> int \<Rightarrow> int \<Rightarrow> rat \<Rightarrow> int \<Rightarrow> bool \<Rightarrow> error + (rat \<times> rat) option" where
  "get_track_index_range g layer_id lower upper num_space edge_margin half_track =
    (case w_tracks g layer_id of
       None \<Rightarrow> Inl KeyError
     | Some tr_w \<Rightarrow>
        (case sp_tracks g layer_id of
           None \<Rightarrow> Inl KeyError
         | Some tr_sp \<Rightarrow>
            (let tr_wh = tr_w div 2; tr_ph = (tr_w + tr_sp) div 2
             in case coord_to_nearest_track g layer_id lower True (- 1) of
                  Inl e \<Rightarrow> Inl e
                | Inr lower_bnd \<Rightarrow>
                   (case coord_to_nearest_track g layer_id (lower + edge_margin) True 2 of
                      Inl e \<Rightarrow> Inl e
                    | Inr start_track \<Rightarrow>
                       (let hstart_track = py_round (2 * max start_track (lower_bnd + num_space) + 1);
                            hstart_track = (if hstart_track * tr_ph - tr_wh < lower + edge_margin
                                            then hstart_track + 1 else hstart_track);
                            hstart_track = (if \<not> half_track \<and> hstart_track mod 2 = 0
                                            then hstart_track + 1 else hstart_track)
                        in case coord_to_nearest_track g layer_id upper True 1 of
                             Inl e \<Rightarrow> Inl e
                           | Inr upper_bnd \<Rightarrow>
                              (case coord_to_nearest_track g layer_id (upper - edge_margin) True (- 2) of
                                 Inl e \<Rightarrow> Inl e
                               | Inr end_track \<Rightarrow>
                                  (let hend_track = py_round (2 * min end_track (upper_bnd - num_space) + 1);
                                       hend_track = (if hend_track * tr_ph + tr_wh > upper - edge_margin
                                                     then hend_track - 1 else hend_track);
                                       hend_track = (if \<not> half_track \<and> hend_track mod 2 = 0
                                                     then hend_track - 1 else hend_track)
                                   in if hend_track < hstart_track then Inr None
                                      else
                                        Inr (Some
                                          ((if hstart_track mod 2 = 1
                                            then of_int ((hstart_track - 1) div 2)
                                            else of_int (hstart_track - 1) / 2),
                                           (if hend_track mod 2 = 1
                                            then of_int ((hend_track - 1) div 2)
                                            else of_int (hend_track - 1) / 2))))))))))"

text \<open>\<open>get_overlap_tracks\<close> with \<open>unit_mode=True\<close>.\<close>

definition get_overlap_tracks ::
  "RoutingGrid \<Rightarrow> int \<Rightarrow> int \<Rightarrow> int \<Rightarrow> bool \<Rightarrow> error + (rat \<times> rat) option" where
  "get_overlap_tracks g layer_id lower upper half_track =
    (case w_tracks g layer_id of
       None \<Rightarrow> Inl KeyError
     | Some tr_w \<Rightarrow>
        (case sp_tracks g layer_id of
           None \<Rightarrow> Inl KeyError
         | Some tr_sp \<Rightarrow>
            (let tr_wh = tr_w div 2; tr_ph = (tr_w + tr_sp) div 2
             in case coord_to_nearest_track g layer_id lower True (- 1) of
                  Inl e \<Rightarrow> Inl e
                | Inr lower_bnd \<Rightarrow>
                   (let hlower_bnd = py_round (2 * lower_bnd + 1);
                        hlower_bnd = (if hlower_bnd * tr_ph + tr_wh < lower
                                      then hlower_bnd + 1 else hlower_bnd);
                        hlower_bnd = (if \<not> half_track \<and> hlower_bnd mod 2 = 0
                                      then hlower_bnd + 1 else hlower_bnd)
                    in case coord_to_nearest_track g layer_id upper True 1 of
                         Inl e \<Rightarrow> Inl e
                       | Inr upper_bnd \<Rightarrow>
                          (let hupper_bnd = py_round (2 * upper_bnd + 1);
                               hupper_bnd = (if hupper_bnd * tr_ph - tr_wh > upper
                                             then hupper_bnd - 1 else hupper_bnd);
                               hupper_bnd = (if \<not> half_track \<and> hupper_bnd mod 2 = 0
                                             then hupper_bnd - 1 else hupper_bnd)
                           in if hupper_bnd < hlower_bnd then Inr None
                              else
                                Inr (Some
                                  ((if hlower_bnd mod 2 = 1
                                    then of_int ((hlower_bnd - 1) div 2)
                                    else of_int (hlower_bnd - 1) / 2),
                                   (if hupper_bnd mod 2 = 1
                                    then of_int ((hupper_bnd - 1) div 2)
                                    else of_int (hupper_bnd - 1) / 2))))))))"


section \<open>Track sets (fill.py)\<close>

text \<open>
  An interval set is the list of its disjoint intervals in increasing order, each with
  its value.
\<close>

type_synonym 'v IntervalSet = "(intv \<times> 'v) list"

definition intv_overlap :: "intv \<Rightarrow> intv \<Rightarrow> bool" where
  "intv_overlap a b \<longleftrightarrow> fst a < snd b \<and> fst b < snd a"

text \<open>
  Modelled from the spec: \<open>IntervalSet.add\<close> of \<open>bag.util.interval\<close> with \<open>merge=True\<close>
  (the module is not among the sources). The stored intervals that overlap the new one
  are replaced, together with it, by the one interval that covers them all, with the
  new value.
\<close>

definition IntervalSet_add :: "'v IntervalSet \<Rightarrow> intv \<Rightarrow> 'v \<Rightarrow> 'v IntervalSet" where
  "IntervalSet_add s intv val =
     (let ov = filter (\<lambda>(i, v). intv_overlap i intv) s;
          lo = fold min (map (\<lambda>(i, v). fst i) ov) (fst intv);
          hi = fold max (map (\<lambda>(i, v). snd i) ov) (snd intv)
      in insort_key (\<lambda>(i, v). fst i) ((lo, hi), val)
           (filter (\<lambda>(i, v). \<not> intv_overlap i intv) s))"

text \<open>
  Modelled from the spec: \<open>IntervalSet.subtract\<close> of \<open>bag.util.interval\<close>. The overlap
  with the given interval is removed from every stored interval; the result is the new
  set and the list of the pieces left of the intervals that were cut.
\<close>

definition sub_pieces :: "intv \<Rightarrow> intv \<Rightarrow> intv list" where
  "sub_pieces i intv =
     (if fst i < fst intv then [(fst i, fst intv)] else []) @
     (if snd intv < snd i then [(snd intv, snd i)] else [])"

definition IntervalSet_subtract :: "'v IntervalSet \<Rightarrow> intv \<Rightarrow> 'v IntervalSet \<times> intv list" where
  "IntervalSet_subtract s intv =
     (concat (map (\<lambda>(i, v). if intv_overlap i intv then map (\<lambda>p. (p, v)) (sub_pieces i intv)
                             else [(i, v)]) s),
      concat (map (\<lambda>(i, v). if intv_overlap i intv then sub_pieces i intv else []) s))"

text \<open>
  Modelled from the spec: \<open>IntervalSet.remove\<close> of \<open>bag.util.interval\<close>, which deletes
  the stored interval equal to the given one.
\<close>

definition IntervalSet_remove :: "'v IntervalSet \<Rightarrow> intv \<Rightarrow> 'v IntervalSet" where
  "IntervalSet_remove s intv = filter (\<lambda>(i, v). i \<noteq> intv) s"

text \<open>
  \<open>TrackSet\<close>: the dictionary \<open>_tracks\<close> from half-track index to interval set, in
  insertion order, and \<open>_min_len\<close>. A stored value is the pair of the wire width and
  the caller's value.
\<close>

record 'v TrackSet =
  tracks :: "(int \<times> (int \<times> 'v) IntervalSet) list"
  min_len :: int

definition TrackSet_init :: "int \<Rightarrow> 'v TrackSet" where
  "TrackSet_init min_length = \<lparr> tracks = [], min_len = min_length \<rparr>"

definition TrackSet_keys :: "'v TrackSet \<Rightarrow> int list" where
  "TrackSet_keys ts = map fst (tracks ts)"

definition TrackSet_contains :: "'v TrackSet \<Rightarrow> int \<Rightarrow> bool" where
  "TrackSet_contains ts item \<longleftrightarrow> map_of (tracks ts) item \<noteq> None"

text \<open>\<open>TrackSet.subtract\<close>.\<close>

definition TrackSet_subtract :: "'v TrackSet \<Rightarrow> int \<Rightarrow> intv \<Rightarrow> 'v TrackSet" where
  "TrackSet_subtract ts hidx intv =
     (case map_of (tracks ts) hidx of
        None \<Rightarrow> ts
      | Some intv_set \<Rightarrow>
          (let (intv_set, new_intvs) = IntervalSet_subtract intv_set intv;
               intv_set = fold (\<lambda>i s. if snd i - fst i < min_len ts
                                        then IntervalSet_remove s i else s) new_intvs intv_set
           in if intv_set = [] then ts\<lparr> tracks := AList.delete hidx (tracks ts) \<rparr>
              else ts\<lparr> tracks := AList.update hidx intv_set (tracks ts) \<rparr>))"

text \<open>\<open>TrackSet.add_track\<close>.\<close>

definition TrackSet_add_track :: "'v TrackSet \<Rightarrow> int \<Rightarrow> intv \<Rightarrow> int \<Rightarrow> 'v \<Rightarrow> 'v TrackSet" where
  "TrackSet_add_track ts hidx intv width val =
     (if snd intv - fst intv \<ge> min_len ts then
        (let intv_set = (case map_of (tracks ts) hidx of None \<Rightarrow> [] | Some s \<Rightarrow> s)
         in ts\<lparr> tracks := AList.update hidx (IntervalSet_add intv_set intv (width, val))
                             (tracks ts) \<rparr>)
      else ts)"

text \<open>\<open>TrackSet.merge\<close>.\<close>

definition TrackSet_merge :: "'v TrackSet \<Rightarrow> 'v TrackSet \<Rightarrow> 'v TrackSet" where
  "TrackSet_merge ts track_set =
     fold (\<lambda>(hidx, new_intv_set) ts.
             let intv_set = (case map_of (tracks ts) hidx of None \<Rightarrow> [] | Some s \<Rightarrow> s)
             in ts\<lparr> tracks := AList.update hidx
                                  (fold (\<lambda>(intv, val) s. IntervalSet_add s intv val)
                                     new_intv_set intv_set)
                                  (tracks ts) \<rparr>)
          (tracks track_set) ts"

text \<open>The invariant the class documents: every stored interval has at least the minimum length.\<close>

definition TrackSet_intvs :: "'v TrackSet \<Rightarrow> intv list" where
  "TrackSet_intvs ts = concat (map (\<lambda>(hidx, s). map fst s) (tracks ts))"

definition min_len_ok :: "'v TrackSet \<Rightarrow> bool" where
  "min_len_ok ts \<longleftrightarrow> list_all (\<lambda>i. snd i - fst i \<ge> min_len ts) (TrackSet_intvs ts)"

section \<open>Power fill (fill.py)\<close>

text \<open>
  The second half of \<open>get_power_fill_tracks\<close>, from \<open># count remaining fill tracks\<close>
  on. Its inputs are the sorted half-track indices of the fill tracks that are left and
  the dictionary \<open>sup_type\<close> of inherited supply types.
\<close>

definition next_vdd_of :: "int \<Rightarrow> int \<Rightarrow> int \<Rightarrow> int" where
  "next_vdd_of k remaining_tot remaining_vdd =
     ((2 * k + 1) * remaining_tot + remaining_vdd) div (2 * remaining_vdd)"

text \<open>
  The loop \<open>for hidx in fill_hidx_list\<close>: the type chosen for each track, in order.
\<close>

fun assign_loop ::
  "int list \<Rightarrow> (int \<rightharpoonup> string) \<Rightarrow> int \<Rightarrow> int \<Rightarrow> int \<Rightarrow> int \<Rightarrow> int \<Rightarrow> (int \<times> string) list" where
  "assign_loop [] sup_type remaining_tot remaining_vdd k next_vdd cur_idx = []"
| "assign_loop (hidx # rest) sup_type remaining_tot remaining_vdd k next_vdd cur_idx =
     (case sup_type hidx of
        None \<Rightarrow>
          (if cur_idx = next_vdd then
             (hidx, ''VDD'') #
               assign_loop rest sup_type remaining_tot remaining_vdd (k + 1)
                 (next_vdd_of (k + 1) remaining_tot remaining_vdd) (cur_idx + 1)
           else
             (hidx, ''VSS'') #
               assign_loop rest sup_type remaining_tot remaining_vdd k next_vdd (cur_idx + 1))
      | Some cur_type \<Rightarrow>
          (hidx, cur_type) #
            assign_loop rest sup_type remaining_tot remaining_vdd k next_vdd cur_idx)"

text \<open>
  Counting and the first \<open>next_vdd\<close>: the division by \<open>2 * remaining_vdd\<close> is carried
  out before the loop, whatever the tracks are, and raises on zero. (Inside the loop the
  divisor is the same.)
\<close>

definition assign_supply :: "int list \<Rightarrow> (int \<rightharpoonup> string) \<Rightarrow> error + (int \<times> string) list" where
  "assign_supply fill_hidx_list sup_type =
     (let tot_cnt = int (length fill_hidx_list);
          vdd_cnt = int (length (filter (\<lambda>hidx. sup_type hidx = Some ''VDD'') fill_hidx_list));
          vss_cnt = int (length (filter (\<lambda>hidx. sup_type hidx = Some ''VSS'') fill_hidx_list));
          num_vdd = tot_cnt div 2;
          num_vss = tot_cnt - num_vdd;
          remaining_tot = tot_cnt - vdd_cnt - vss_cnt;
          remaining_vss = max (num_vss - vss_cnt) 0;
          remaining_vdd = remaining_tot - remaining_vss
      in if 2 * remaining_vdd = 0 then Inl ZeroDivisionError
         else Inr (assign_loop fill_hidx_list sup_type remaining_tot remaining_vdd 0
                     (next_vdd_of 0 remaining_tot remaining_vdd) 0))"

text \<open>
  The tracks that go to \<open>vdd_warr_list\<close> and to \<open>vss_warr_list\<close>:
  \<open>w_list = vdd_warr_list if cur_type == 'VDD' else vss_warr_list\<close>.
\<close>

definition vdd_tracks :: "(int \<times> string) list \<Rightarrow> int list" where
  "vdd_tracks asg = map fst (filter (\<lambda>(hidx, cur_type). cur_type = ''VDD'') asg)"

definition vss_tracks :: "(int \<times> string) list \<Rightarrow> int list" where
  "vss_tracks asg = map fst (filter (\<lambda>(hidx, cur_type). cur_type \<noteq> ''VDD'') asg)"


text \<open>Python's \<open>range(start, stop, step)\<close> for a nonzero step.\<close>

definition py_range :: "int \<Rightarrow> int \<Rightarrow> int \<Rightarrow> int list" where
  "py_range start stop step =
     (if step > 0 then map (\<lambda>i. start + int i * step) [0..<nat ((stop - start + step - 1) div step)]
      else map (\<lambda>i. start + int i * step) [0..<nat ((start - stop - step - 1) div (- step))])"

record TrackID =
  tid_layer_id :: int
  tid_base_index :: rat
  tid_width :: int

text \<open>
  A wire array on one track; \<open>wa_lower\<close> and \<open>wa_upper\<close> are in resolution units (the
  source scales them by the resolution).
\<close>

record WireArray =
  wa_track_id :: TrackID
  wa_lower :: int
  wa_upper :: int

text \<open>
  The loop \<open>for sub_idx in range(hidx0, hidx1 + 1)\<close>: subtract the used wire from the
  fill tracks and record its supply type on them.
\<close>

fun subtract_fill ::
  "bool TrackSet \<Rightarrow> (int \<rightharpoonup> string) \<Rightarrow> int list \<Rightarrow> intv \<Rightarrow> string \<Rightarrow>
   bool TrackSet \<times> (int \<rightharpoonup> string)" where
  "subtract_fill fill_track_set sup_type [] sub_intv fill_type = (fill_track_set, sup_type)"
| "subtract_fill fill_track_set sup_type (sub_idx # rest) sub_intv fill_type =
     (let fill_track_set = TrackSet_subtract fill_track_set sub_idx sub_intv;
          sup_type = (if sup_type sub_idx = None \<and> (fill_type = ''VDD'' \<or> fill_type = ''VSS'')
                      then sup_type(sub_idx \<mapsto> fill_type) else sup_type)
      in subtract_fill fill_track_set sup_type rest sub_intv fill_type)"

text \<open>
  The two loops that look for the nearest fill track on either side and \<open>break\<close> at the
  first one found.
\<close>

fun assign_adjacent ::
  "bool TrackSet \<Rightarrow> (int \<rightharpoonup> string) \<Rightarrow> int list \<Rightarrow> string \<Rightarrow> (int \<rightharpoonup> string)" where
  "assign_adjacent fill_track_set sup_type [] fill_type = sup_type"
| "assign_adjacent fill_track_set sup_type (sub_idx # rest) fill_type =
     (if TrackSet_contains fill_track_set sub_idx then
        (if sup_type sub_idx = None then sup_type(sub_idx \<mapsto> fill_type) else sup_type)
      else assign_adjacent fill_track_set sup_type rest fill_type)"

text \<open>
  The body of the loop over the used wires of \<open>track_set\<close>. Arithmetic on the
  \<open>(None, None)\<close> that \<open>get_overlap_tracks\<close> may return raises \<open>TypeError\<close>.
\<close>

definition subtract_used ::
  "RoutingGrid \<Rightarrow> int \<Rightarrow> int \<Rightarrow> int \<Rightarrow> int \<Rightarrow> int \<Rightarrow> intv \<times> int \<times> int \<times> string \<Rightarrow>
   bool TrackSet \<times> (int \<rightharpoonup> string) \<Rightarrow> error + bool TrackSet \<times> (int \<rightharpoonup> string)" where
  "subtract_used g layer_id sup_width fill_margin max_fill_hidx hidx item st =
     (case item of ((wstart, wstop), (wwidth, (fmargin, fill_type))) \<Rightarrow>
        (let fmargin = max fill_margin fmargin;
             sub_intv = (wstart - fmargin, wstop + fmargin)
         in case get_wire_bounds g layer_id (of_int (hidx - 1) / 2) wwidth of
              Inl e \<Rightarrow> Inl e
            | Inr (cbeg, cend) \<Rightarrow>
               (case get_overlap_tracks g layer_id (cbeg - fmargin) (cend + fmargin) True of
                  Inl e \<Rightarrow> Inl e
                | Inr None \<Rightarrow> Inl TypeError
                | Inr (Some (idx0, idx1)) \<Rightarrow>
                   (let hidx0 = py_round (2 * idx0 + 1) - 2 * (sup_width - 1);
                        hidx1 = py_round (2 * idx1 + 1) + 2 * (sup_width - 1);
                        (fill_track_set, sup_type) =
                           subtract_fill (fst st) (snd st) (py_range hidx0 (hidx1 + 1) 1)
                             sub_intv fill_type;
                        sup_type =
                          (if fill_type = ''VDD'' \<or> fill_type = ''VSS'' then
                             (let sup_type = assign_adjacent fill_track_set sup_type
                                               (py_range (hidx0 - 1) (- 1) (- 1)) fill_type
                              in assign_adjacent fill_track_set sup_type
                                   (py_range (hidx1 + 1) (max_fill_hidx + 1) 1) fill_type)
                           else sup_type)
                    in Inr (fill_track_set, sup_type)))))"

fun subtract_all ::
  "RoutingGrid \<Rightarrow> int \<Rightarrow> int \<Rightarrow> int \<Rightarrow> int \<Rightarrow> (int \<times> intv \<times> int \<times> int \<times> string) list \<Rightarrow>
   bool TrackSet \<times> (int \<rightharpoonup> string) \<Rightarrow> error + bool TrackSet \<times> (int \<rightharpoonup> string)" where
  "subtract_all g layer_id sup_width fill_margin max_fill_hidx [] st = Inr st"
| "subtract_all g layer_id sup_width fill_margin max_fill_hidx ((hidx, item) # rest) st =
     (case subtract_used g layer_id sup_width fill_margin max_fill_hidx hidx item st of
        Inl e \<Rightarrow> Inl e
      | Inr st' \<Rightarrow> subtract_all g layer_id sup_width fill_margin max_fill_hidx rest st')"

text \<open>
  \<open>get_power_fill_tracks\<close>. The bounding box is its width and height in resolution
  units. The technology file is not part of the sources: \<open>min_num_space\<close> is what
  \<open>grid.get_num_space_tracks(layer_id, sup_width, half_space=False)\<close> returns and
  \<open>min_length\<close> what \<open>grid.get_min_length(layer_id, sup_width, unit_mode=True)\<close>
  returns. With \<open>half_track=False\<close> the track range is a pair of integers.
\<close>

definition get_power_fill_tracks ::
  "RoutingGrid \<Rightarrow> int \<Rightarrow> int \<Rightarrow> int \<Rightarrow> (int \<times> string) TrackSet \<Rightarrow> int \<Rightarrow> int \<Rightarrow> int \<Rightarrow> int \<Rightarrow>
   int \<Rightarrow> int \<Rightarrow> error + (WireArray list \<times> WireArray list)" where
  "get_power_fill_tracks g blk_width blk_height layer_id track_set sup_width fill_margin
       edge_margin sup_spacing min_num_space min_length =
    (let lower = edge_margin
     in case dir_tracks g layer_id of
          None \<Rightarrow> Inl KeyError
        | Some d \<Rightarrow>
           (let upper = (if d = ''x'' then blk_width - edge_margin else blk_height - edge_margin);
                cupper = (if d = ''x'' then blk_height else blk_width)
            in if sup_spacing \<ge> 0 \<and> sup_spacing < min_num_space then Inl FillSpacingTooSmall
               else
                 (let num_space = (if sup_spacing \<ge> 0 then sup_spacing else min_num_space)
                  in case get_track_index_range g layer_id 0 cupper (of_int num_space)
                            edge_margin False of
                       Inl e \<Rightarrow> Inl e
                     | Inr None \<Rightarrow> Inl TypeError
                     | Inr (Some (start_tidx, end_tidx)) \<Rightarrow>
                        (let first_hidx = \<lfloor>start_tidx\<rfloor> * 2 + 1 + sup_width - 1;
                             last_hidx = \<lfloor>end_tidx\<rfloor> * 2 + 1 - (sup_width - 1)
                         in if 2 * (sup_width + num_space) = 0 then Inl RangeStepZero
                            else
                              (let fill_hidx_list = py_range first_hidx (last_hidx + 1)
                                                      (2 * (sup_width + num_space));
                                   fill_track_set =
                                     fold (\<lambda>hidx ts. TrackSet_add_track ts hidx (lower, upper)
                                                        sup_width False)
                                       fill_hidx_list (TrackSet_init min_length)
                               in if fill_hidx_list = [] then Inl IndexError
                                  else
                                    (case subtract_all g layer_id sup_width fill_margin
                                            (last fill_hidx_list)
                                            (concat (map (\<lambda>(hidx, intv_set).
                                                       map (\<lambda>item. (hidx, item)) intv_set)
                                                     (tracks track_set)))
                                            (fill_track_set, Map.empty) of
                                       Inl e \<Rightarrow> Inl e
                                     | Inr (fill_track_set, sup_type) \<Rightarrow>
                                        (case assign_supply (sort (TrackSet_keys fill_track_set))
                                                sup_type of
                                           Inl e \<Rightarrow> Inl e
                                         | Inr asg \<Rightarrow>
                                            (let warrs = (\<lambda>hidx.
                                                   map (\<lambda>(intv, val).
                                                          \<lparr> wa_track_id =
                                                              \<lparr> tid_layer_id = layer_id,
                                                                tid_base_index = of_int (hidx - 1) / 2,
                                                                tid_width = sup_width \<rparr>,
                                                            wa_lower = fst intv,
                                                            wa_upper = snd intv \<rparr>)
                                                     (case map_of (tracks fill_track_set) hidx of
                                                        None \<Rightarrow> [] | Some intv_set \<Rightarrow> intv_set))
                                             in Inr (concat (map warrs (vdd_tracks asg)),
                                                     concat (map warrs (vss_tracks asg)))))))))))"


section \<open>Grids that the program can build\<close>

text \<open>
  A grid is built by \<open>RoutingGrid.__init__\<close> and changed afterwards only by
  \<open>add_new_layer\<close> (\<open>copy\<close> returns the same tables).
\<close>

inductive constructed :: "RoutingGrid \<Rightarrow> bool" where
  init: "RoutingGrid_init layer_ids spaces widths bot_dir max_num_tr = Inr g \<Longrightarrow> constructed g"
| add: "constructed g \<Longrightarrow>
        add_new_layer g layer_id sp_half w_half direction max_num_tr share_track override = Inr g'
        \<Longrightarrow> constructed g'"

text \<open>What every such grid satisfies: the tables have the layers as keys and hold even values.\<close>

definition grid_inv :: "RoutingGrid \<Rightarrow> bool" where
  "grid_inv g \<longleftrightarrow>
     sorted (layers g) \<and> distinct (layers g)
     \<and> dom (sp_tracks g) = set (layers g) \<and> dom (w_tracks g) = set (layers g)
     \<and> dom (offset_tracks g) = set (layers g) \<and> dom (dir_tracks g) = set (layers g)
     \<and> (\<forall>l sp. sp_tracks g l = Some sp \<longrightarrow> even sp)
     \<and> (\<forall>l w. w_tracks g l = Some w \<longrightarrow> even w)"

text \<open>
  The grid of the examples: one horizontal layer of width 2 and space 2, that is
  \<open>RoutingGrid(tech_info, [1], [2 * res], [2 * res], 'x')\<close>.
\<close>

definition example_grid :: RoutingGrid where
  "example_grid = \<lparr> layers = [1], sp_tracks = [1 \<mapsto> 2], w_tracks = [1 \<mapsto> 2],
                     offset_tracks = [1 \<mapsto> 2], dir_tracks = [1 \<mapsto> ''x''],
                     max_num_tr_tracks = [1 \<mapsto> 100], block_pitch = [1 \<mapsto> 4] \<rparr>"

text \<open>
  A grid of three layers with pitches 6, 6 and 8, that is
  \<open>RoutingGrid(tech_info, [1, 2, 3], [4 * res, 4 * res, 6 * res], [2 * res] * 3, 'x')\<close>.
\<close>

definition example_grid3 :: RoutingGrid where
  "example_grid3 = \<lparr> layers = [1, 2, 3], sp_tracks = [1 \<mapsto> 4, 2 \<mapsto> 4, 3 \<mapsto> 6],
                      w_tracks = [1 \<mapsto> 2, 2 \<mapsto> 2, 3 \<mapsto> 2],
                      offset_tracks = [1 \<mapsto> 3, 2 \<mapsto> 3, 3 \<mapsto> 4],
                      dir_tracks = [1 \<mapsto> ''x'', 2 \<mapsto> ''y'', 3 \<mapsto> ''x''],
                      max_num_tr_tracks = [1 \<mapsto> 100, 2 \<mapsto> 100, 3 \<mapsto> 100],
                      block_pitch = [1 \<mapsto> 6, 2 \<mapsto> 6, 3 \<mapsto> 24] \<rparr>"

text \<open>
  The resolution of the examples: the \<open>float\<close> \<open>0.001\<close>, the double nearest to one
  thousandth.
\<close>

definition example_resolution :: pyfloat where
  "example_resolution = rounded (1 / 1000)"


text \<open>
  Used tracks of the examples: two \<open>VDD\<close> wires of width 1 on the tracks 2 and 4 of the
  layer, both from 0 to 100, as \<open>UsedTracks.add_wire_arrays\<close> stores them (half-track
  indices 5 and 9, fill margin 0).
\<close>

definition example_used_tracks :: "(int \<times> string) TrackSet" where
  "example_used_tracks =
     TrackSet_add_track
       (TrackSet_add_track (TrackSet_init 0) 5 (0, 100) 1 (0, ''VDD''))
       9 (0, 100) 1 (0, ''VDD'')"

text \<open>Every interval of an interval set has at least the length \<open>n\<close>.\<close>

definition long_enough :: "int \<Rightarrow> (intv \<times> 'v) list \<Rightarrow> bool" where
  "long_enough n s \<longleftrightarrow> (\<forall>(i, v) \<in> set s. snd i - fst i \<ge> n)"

text \<open>The dictionary \<open>sup_type\<close> holds the supply types \<open>VDD\<close> and \<open>VSS\<close> only.\<close>

definition tags_ok :: "(int \<rightharpoonup> string) \<Rightarrow> bool" where
  "tags_ok st \<longleftrightarrow> (\<forall>h t. st h = Some t \<longrightarrow> t = ''VDD'' \<or> t = ''VSS'')"

text \<open>
  The state of the block-pitch loop after the layers \<open>ds\<close> with the pitch list \<open>pl\<close>: each
  block pitch is stored, is a multiple of the layer's own pitch and of the block pitch of
  every earlier layer of the same direction.
\<close>

definition pitches_ok :: "RoutingGrid \<Rightarrow> int list \<Rightarrow> int list \<Rightarrow> bool" where
  "pitches_ok g ds pl \<longleftrightarrow>
     length pl = length ds
     \<and> (\<forall>i < length ds.
           block_pitch g (ds ! i) = Some (pl ! i)
           \<and> (\<forall>sp w. sp_tracks g (ds ! i) = Some sp \<longrightarrow> w_tracks g (ds ! i) = Some w
                  \<longrightarrow> (sp + w) dvd pl ! i)
           \<and> (\<forall>j < i. dir_tracks g (ds ! j) = dir_tracks g (ds ! i) \<longrightarrow> pl ! j dvd pl ! i))"

section \<open>Results on symmetric interval packing\<close>

subsection \<open>Which errors the helpers raise\<close>

lemma info_ZeroSpaceBlocks:
  assumes "((if c then n else if f then n - 1 else n + 1) = 0 \<and> sp \<noteq> 0) = True"
  shows "fill_symmetric_info a n sp i f c = Inl ZeroSpaceBlocks"
  unfolding fill_symmetric_info_def Let_def
  by (simp only: assms if_True)

lemma info_ZeroDivisionError:
  assumes "((if c then n else if f then n - 1 else n + 1) = 0 \<and> sp \<noteq> 0) = False"
    and "(n = 0) = True"
  shows "fill_symmetric_info a n sp i f c = Inl ZeroDivisionError"
  unfolding fill_symmetric_info_def Let_def
  by (simp only: assms if_False if_True)

lemma info_BlockLenLeZero:
  assumes "((if c then n else if f then n - 1 else n + 1) = 0 \<and> sp \<noteq> 0) = False"
    and "(n = 0) = False"
    and "((a - (if c then n else if f then n - 1 else n + 1) * sp) div n \<le> 0) = True"
  shows "fill_symmetric_info a n sp i f c = Inl BlockLenLeZero"
  unfolding fill_symmetric_info_def Let_def
  by (simp only: assms if_False if_True)

lemma info_CyclicOddSpace:
  assumes "((if c then n else if f then n - 1 else n + 1) = 0 \<and> sp \<noteq> 0) = False"
    and "(n = 0) = False"
    and "((a - (if c then n else if f then n - 1 else n + 1) * sp) div n \<le> 0) = False"
    and "(c \<and> \<not> f \<and> sp mod 2 = 1) = True"
  shows "fill_symmetric_info a n sp i f c = Inl CyclicOddSpace"
  unfolding fill_symmetric_info_def Let_def
  by (simp only: assms if_False if_True)

lemma info_Inr:
  assumes "((if c then n else if f then n - 1 else n + 1) = 0 \<and> sp \<noteq> 0) = False"
    and "(n = 0) = False"
    and "((a - (if c then n else if f then n - 1 else n + 1) * sp) div n \<le> 0) = False"
    and "(c \<and> \<not> f \<and> sp mod 2 = 1) = False"
  shows "\<exists>fi. fill_symmetric_info a n sp i f c = Inr fi"
  unfolding fill_symmetric_info_def Let_def case_prod_beta
  by (simp only: assms if_False) blast

lemma info_errors:
  assumes "fill_symmetric_info a n sp i f c = Inl e"
  shows "e = ZeroSpaceBlocks \<or> e = ZeroDivisionError \<or> e = BlockLenLeZero \<or> e = CyclicOddSpace"
proof (cases "(if c then n else if f then n - 1 else n + 1) = 0 \<and> sp \<noteq> 0")
  case True
  then have "fill_symmetric_info a n sp i f c = Inl ZeroSpaceBlocks"
    by (intro info_ZeroSpaceBlocks) simp
  with assms show ?thesis by simp
next
  case c1: False
  show ?thesis
  proof (cases "n = 0")
    case True
    with c1 have "fill_symmetric_info a n sp i f c = Inl ZeroDivisionError"
      by (intro info_ZeroDivisionError) simp_all
    with assms show ?thesis by simp
  next
    case c2: False
    show ?thesis
    proof (cases "(a - (if c then n else if f then n - 1 else n + 1) * sp) div n \<le> 0")
      case True
      with c1 c2 have "fill_symmetric_info a n sp i f c = Inl BlockLenLeZero"
        by (intro info_BlockLenLeZero) simp_all
      with assms show ?thesis by simp
    next
      case c3: False
      show ?thesis
      proof (cases "c \<and> \<not> f \<and> sp mod 2 = 1")
        case True
        with c1 c2 c3 have "fill_symmetric_info a n sp i f c = Inl CyclicOddSpace"
          by (intro info_CyclicOddSpace) simp_all
        with assms show ?thesis by simp
      next
        case False
        with c1 c2 c3 have "\<exists>fi. fill_symmetric_info a n sp i f c = Inr fi"
          by (intro info_Inr) simp_all
        with assms show ?thesis by auto
      qed
    qed
  qed
qed

lemma info_cyclic_space_on_edge:
  assumes "sp mod 2 = 1"
  shows "\<exists>e. fill_symmetric_info a n sp i False True = Inl e"
    and "n \<noteq> 0 \<Longrightarrow> 0 < (a - n * sp) div n \<Longrightarrow>
         fill_symmetric_info a n sp i False True = Inl CyclicOddSpace"
proof -
  have odd: "(True \<and> \<not> False \<and> sp mod 2 = 1) = True" using assms by simp
  have nsp: "(if True then n else if False then n - 1 else n + 1) = n" by simp
  show "\<exists>e. fill_symmetric_info a n sp i False True = Inl e"
  proof (cases "n = 0 \<and> sp \<noteq> 0")
    case True
    then show ?thesis
      using info_ZeroSpaceBlocks[of True n False sp a i] by simp
  next
    case c1: False
    show ?thesis
    proof (cases "n = 0")
      case True
      with c1 show ?thesis
        using info_ZeroDivisionError[of True n False sp a i] by simp
    next
      case c2: False
      show ?thesis
      proof (cases "(a - n * sp) div n \<le> 0")
        case True
        with c1 c2 show ?thesis
          using info_BlockLenLeZero[of True n False sp a i] by simp
      next
        case False
        with c1 c2 odd show ?thesis
          using info_CyclicOddSpace[of True n False sp a i] by simp
      qed
    qed
  qed
  show "fill_symmetric_info a n sp i False True = Inl CyclicOddSpace"
    if "n \<noteq> 0" "0 < (a - n * sp) div n"
    using that odd info_CyclicOddSpace[of True n False sp a i] by simp
qed

lemma helper_Inl_info:
  "fill_symmetric_info a n sp i f c = Inl e \<Longrightarrow>
   fill_symmetric_helper a n sp off i iv f c = Inl e"
  by (simp add: fill_symmetric_helper_def)

lemma helper_Inr_errors:
  assumes "fill_symmetric_info a n sp i f c = Inr fi"
    and "fill_symmetric_helper a n sp off i iv f c = Inl e"
  shows "e = IndexError"
  using assms
  by (simp add: fill_symmetric_helper_def Let_def case_prod_beta split: if_splits)

lemma helper_errors:
  assumes "fill_symmetric_helper a n sp off i iv f c = Inl e"
  shows "e = ZeroSpaceBlocks \<or> e = ZeroDivisionError \<or> e = BlockLenLeZero \<or> e = CyclicOddSpace
     \<or> e = IndexError"
proof (cases "fill_symmetric_info a n sp i f c")
  case (Inl e')
  with assms helper_Inl_info[OF Inl, of off iv] have "e' = e" by simp
  with Inl info_errors show ?thesis by blast
next
  case (Inr fi)
  with assms helper_Inr_errors show ?thesis by blast
qed

lemma helper_fst_errors:
  assumes "map_sum id fst (fill_symmetric_helper a n sp off i iv f c) = Inl e"
  shows "e = ZeroSpaceBlocks \<or> e = ZeroDivisionError \<or> e = BlockLenLeZero \<or> e = CyclicOddSpace
     \<or> e = IndexError"
proof (cases "fill_symmetric_helper a n sp off i iv f c")
  case (Inl e')
  with assms have "e' = e" by simp
  with Inl helper_errors show ?thesis by blast
next
  case (Inr r)
  with assms show ?thesis by simp
qed

lemma int_div_less_iff:
  fixes a d q :: int
  assumes "0 < d"
  shows "a div d < q \<longleftrightarrow> a < q * d"
proof -
  have "(a + (- q) * d) div d = - q + a div d"
    using assms by (intro div_mult_self1) simp
  then have "a div d < q \<longleftrightarrow> (a + (- q) * d) div d < 0" by simp
  also have "\<dots> \<longleftrightarrow> a + (- q) * d < 0"
    using assms by (rule pos_imp_zdiv_neg_iff)
  finally show ?thesis by simp
qed

lemma int_le_div_iff:
  fixes a d q :: int
  assumes "0 < d"
  shows "q \<le> a div d \<longleftrightarrow> q * d \<le> a"
  using int_div_less_iff[OF assms, of a q] by linarith

lemma search_errors: "max_blk_search area n_min sp_min cyclic b = Inl e \<Longrightarrow> e = ZeroDivisionError"
proof (induction area n_min sp_min cyclic b rule: max_blk_search.induct)
  case (1 area n_min sp_min cyclic b)
  from "1.prems" show ?case
    by (subst (asm) max_blk_search.simps) (auto simp: Let_def dest: "1.IH" split: if_splits)
qed


subsection \<open>No block fits\<close>

lemma search_none:
  assumes "0 < n_min + sp_min" "n_min \<le> b"
    and "area < (if cyclic then n_min + sp_min else 2 * n_min + sp_min)"
  shows "\<exists>nb ns. max_blk_search area n_min sp_min cyclic b = Inr (n_min, nb, ns)
           \<and> (nb \<le> 0 \<or> ns \<le> 0)"
  using assms
proof (induction area n_min sp_min cyclic b rule: max_blk_search.induct)
  case (1 area n_min sp_min cyclic b)
  have pos: "0 < b + sp_min" using "1.prems" by simp
  have small: "(if cyclic then area div (b + sp_min) else (area + sp_min) div (b + sp_min) - 1) \<le> 0"
  proof (cases cyclic)
    case True
    with "1.prems" have "area < 1 * (b + sp_min)" by simp
    then have "area div (b + sp_min) < 1" using pos int_div_less_iff by blast
    with True show ?thesis by simp
  next
    case False
    with "1.prems" have "area + sp_min < 2 * (b + sp_min)" by simp
    then have "(area + sp_min) div (b + sp_min) < 2" using pos int_div_less_iff by blast
    with False show ?thesis by simp
  qed
  show ?case
  proof (cases "b - 1 > n_min - 1")
    case True
    then have "n_min \<le> b - 1" by simp
    from "1.IH"[OF _ refl refl _ True "1.prems"(1) this "1.prems"(3)] pos small
    show ?thesis
      by (subst max_blk_search.simps) (auto simp: Let_def True split: if_splits)
  next
    case False
    with "1.prems" have "b = n_min" by simp
    with pos small show ?thesis
      by (subst max_blk_search.simps) (auto simp: Let_def split: if_splits)
  qed
qed

lemma const_space_usage:
  "fill_symmetric_const_space area sp_max n_min n_max offset = Inl MinFillGtMax \<longleftrightarrow> n_min > n_max"
proof
  assume "n_min > n_max"
  then show "fill_symmetric_const_space area sp_max n_min n_max offset = Inl MinFillGtMax"
    by (simp add: fill_symmetric_const_space_def)
next
  assume a: "fill_symmetric_const_space area sp_max n_min n_max offset = Inl MinFillGtMax"
  show "n_min > n_max"
  proof (rule ccontr)
    assume "\<not> n_min > n_max"
    with a show False
      unfolding fill_symmetric_const_space_def Let_def
      by (auto split: if_splits sum.splits prod.splits dest!: helper_fst_errors helper_errors)
  qed
qed

lemma max_usage:
  "fill_symmetric_max area n_min n_max sp_min offset cyclic = Inl MinFillGeMax \<longleftrightarrow> n_min \<ge> n_max"
proof
  assume "n_min \<ge> n_max"
  then show "fill_symmetric_max area n_min n_max sp_min offset cyclic = Inl MinFillGeMax"
    by (simp add: fill_symmetric_max_def)
next
  assume a: "fill_symmetric_max area n_min n_max sp_min offset cyclic = Inl MinFillGeMax"
  show "n_min \<ge> n_max"
  proof (rule ccontr)
    assume "\<not> n_min \<ge> n_max"
    with a show False
      unfolding fill_symmetric_max_def Let_def
      by (auto split: if_splits sum.splits prod.splits dest!: helper_fst_errors search_errors)
  qed
qed

lemma const_space_empty:
  assumes "n_min \<le> n_max" "0 < n_max + sp_max" "0 < area + n_max" "area \<le> sp_max"
  shows "fill_symmetric_const_space area sp_max n_min n_max offset = Inr []"
proof -
  have "- 1 < (- (area - sp_max)) div (n_max + sp_max) \<and> (- (area - sp_max)) div (n_max + sp_max) < 1"
    using assms int_div_less_iff[of "n_max + sp_max" "- (area - sp_max)" 1]
      int_le_div_iff[of "n_max + sp_max" 0 "- (area - sp_max)"]
    by simp
  then have "(- (area - sp_max)) div (n_max + sp_max) = 0" by simp
  with assms show ?thesis
    by (simp add: fill_symmetric_const_space_def)
qed

lemma max_empty:
  assumes "n_min < n_max" "0 < n_min + sp_min"
    and "\<not> (n_min \<le> area \<and> area \<le> n_max \<and> \<not> cyclic)"
    and "area < (if cyclic then n_min + sp_min else 2 * n_min + sp_min)"
  shows "fill_symmetric_max area n_min n_max sp_min offset cyclic = Inr []"
proof -
  from search_none[of n_min sp_min n_max area cyclic] assms
  obtain nb ns where "max_blk_search area n_min sp_min cyclic n_max = Inr (n_min, nb, ns)"
    and "nb \<le> 0 \<or> ns \<le> 0" by auto
  with assms show ?thesis
    by (simp add: fill_symmetric_max_def)
qed


subsection \<open>The claims on symmetric packing\<close>

text \<open>
  C1 (code at the failing input). Five blocks with space 1 in an area of 13: the helper
  returns blocks of lengths 2, 1, 1, 1, 2, and the middle block \<open>(5, 6)\<close> is not its own
  mirror image \<open>(7, 8)\<close>, so the list is not invariant under the reflection
  \<open>x \<mapsto> (tot_area + 2 * offset) - x\<close>. The entry point \<open>fill_symmetric_max\<close> reaches
  this call with area 13, block lengths 1 to 2 and minimum space 1.
\<close>

theorem fill_symmetric_helper_asymmetric:
  "fill_symmetric_helper 13 5 1 0 True False True False
     = Inr ([(0, 2), (3, 4), (5, 6), (9, 10), (11, 13)], True)
   \<and> fill_symmetric_max 13 1 2 1 0 False = Inr [(0, 2), (3, 4), (5, 6), (9, 10), (11, 13)]
   \<and> set (reflect (13 + 2 * 0) [(0, 2), (3, 4), (5, 6), (9, 10), (11, 13)])
       \<noteq> set [(0, 2), (3, 4), (5, 6), (9, 10), (11, 13)]"
proof -
  have a: "fill_symmetric_helper 13 5 1 0 True False True False
     = Inr ([(0, 2), (3, 4), (5, 6), (9, 10), (11, 13)], True)"
    by code_simp
  have b: "fill_symmetric_max 13 1 2 1 0 False = Inr [(0, 2), (3, 4), (5, 6), (9, 10), (11, 13)]"
    by code_simp
  have "(5, 6) \<notin> set (reflect (13 + 2 * 0) [(0, 2), (3, 4), (5, 6), (9, 10), (11, 13)])"
    by (simp add: reflect_def)
  moreover have "(5, 6) \<in> set [(0, 2), (3, 4), (5, 6), (9, 10), (11, 13::int)]"
    by simp
  ultimately have c: "set (reflect (13 + 2 * 0) [(0, 2), (3, 4), (5, 6), (9, 10), (11, 13)])
       \<noteq> set [(0, 2), (3, 4), (5, 6), (9, 10), (11, 13)]"
    by metis
  from a b c show ?thesis by blast
qed

text \<open>
  C4 (counterexample). \<open>fill_symmetric_max\<close> on area 20 with block lengths 2 to 4 and
  minimum space 2 does not return three blocks of length 4.
\<close>

theorem fill_symmetric_max_three_blocks_counterexample:
  "map_sum id length (fill_symmetric_max 20 2 4 2 0 False) \<noteq> Inr 3
   \<and> map_sum id intv_lens (fill_symmetric_max 20 2 4 2 0 False) \<noteq> Inr [4, 4, 4]"
proof -
  have "fill_symmetric_max 20 2 4 2 0 False = Inr [(0, 4), (6, 9), (11, 14), (16, 20)]"
    by code_simp
  then show ?thesis by (simp add: intv_lens_def)
qed

text \<open>
  C4 (amended). On that input \<open>fill_symmetric_max\<close> returns four blocks, of lengths
  4, 3, 3, 4, separated by spaces of length 2; the first block starts at 0 and the last
  ends at 20, and the list is its own mirror image about \<open>x = 10\<close>.
\<close>

theorem fill_symmetric_max_example:
  "\<exists>bs. fill_symmetric_max 20 2 4 2 0 False = Inr bs
        \<and> bs = [(0, 4), (6, 9), (11, 14), (16, 20)]
        \<and> length bs = 4 \<and> intv_lens bs = [4, 3, 3, 4] \<and> intv_gaps bs = [2, 2, 2]
        \<and> fst (hd bs) = 0 \<and> snd (last bs) = 20
        \<and> rev (reflect (2 * 10) bs) = bs"
proof -
  have "fill_symmetric_max 20 2 4 2 0 False = Inr [(0, 4), (6, 9), (11, 14), (16, 20)]"
    by code_simp
  then show ?thesis
    by (simp add: intv_lens_def intv_gaps_def reflect_def)
qed

text \<open>
  C7 (counterexample). With \<open>n_min = n_max = 3\<close> and an area too short for any block,
  \<open>fill_symmetric_max\<close> raises the usage error although \<open>n_min > n_max\<close> is false.
\<close>

theorem fill_symmetric_max_equal_bounds_counterexample:
  "fill_symmetric_max 1 3 3 2 0 False = Inl MinFillGeMax \<and> \<not> (3 :: int) > 3"
  by (simp add: fill_symmetric_max_def)

text \<open>
  C7 (amended). \<open>fill_symmetric_const_space\<close> raises its usage error exactly when
  \<open>n_min > n_max\<close>; \<open>fill_symmetric_max\<close> raises its usage error exactly when
  \<open>n_min \<ge> n_max\<close>. When the bounds pass the check and no block fits (for
  \<open>fill_symmetric_const_space\<close> the area is at most \<open>sp_max\<close>; for \<open>fill_symmetric_max\<close>
  the area is below \<open>2 * n_min + sp_min\<close>, or below \<open>n_min + sp_min\<close> in cyclic mode, and
  is not filled by one block), each returns the empty list.
\<close>

theorem fill_symmetric_usage_error:
  "(fill_symmetric_const_space area sp_max n_min n_max offset = Inl MinFillGtMax
      \<longleftrightarrow> n_min > n_max)
   \<and> (fill_symmetric_max area n_min n_max sp_min offset cyclic = Inl MinFillGeMax
      \<longleftrightarrow> n_min \<ge> n_max)
   \<and> (n_min \<le> n_max \<and> 0 < n_max + sp_max \<and> 0 < area + n_max \<and> area \<le> sp_max
      \<longrightarrow> fill_symmetric_const_space area sp_max n_min n_max offset = Inr [])
   \<and> (n_min < n_max \<and> 0 < n_min + sp_min
       \<and> \<not> (n_min \<le> area \<and> area \<le> n_max \<and> \<not> cyclic)
       \<and> area < (if cyclic then n_min + sp_min else 2 * n_min + sp_min)
      \<longrightarrow> fill_symmetric_max area n_min n_max sp_min offset cyclic = Inr [])"
  using const_space_usage[of area sp_max n_min n_max offset]
    max_usage[of area n_min n_max sp_min offset cyclic]
    const_space_empty[of n_min n_max sp_max area offset]
    max_empty[of n_min n_max sp_min area cyclic offset]
  by blast

theorem fill_symmetric_usage_error_witness:
  "fill_symmetric_const_space 5 5 2 4 0 \<noteq> Inl MinFillGtMax
   \<and> fill_symmetric_max 5 2 4 2 0 False \<noteq> Inl MinFillGeMax
   \<and> fill_symmetric_const_space 5 5 2 4 0 = Inr []
   \<and> fill_symmetric_max 5 2 4 2 0 False = Inr []"
  using fill_symmetric_usage_error[of 5 5 2 4 0 2 False] by simp

text \<open>
  C8 (code at the failing input). \<open>fill_symmetric_max\<close> on a cyclic area of 14 with block
  lengths 2 to 4 and minimum space 3 calls the helper inverted, cyclic and with fill on
  the edge: two blocks of length 4 leave 6 units for two spaces, so the space on the edge
  has to have the odd length 3. No error is raised. The first length of the helper is
  forced to the even 4 although no space of length 4 is to be distributed (\<open>k = 0\<close>), and
  the list that comes back leaves a space of 2, less than the minimum 3, between its two
  blocks and a space of 4 across the edge.
\<close>

theorem fill_symmetric_max_cyclic_odd_edge_space:
  "fill_symmetric_max 14 2 4 3 0 True = Inr [(2, 6), (8, 12)]
   \<and> fill_symmetric_helper 14 2 4 0 False True True True = Inr ([(2, 6), (8, 12)], True)
   \<and> map_sum id (\<lambda>fi. (fi_blk0 fi, fi_blk1 fi, fi_k fi, fi_m fi))
        (fill_symmetric_info 14 2 4 False True True) = Inr (3, 4, 0, 1)
   \<and> intv_gaps [(2, 6), (8, 12)] = [2] \<and> (2 :: int) < 3
   \<and> intv_gaps [(8, 12), (2 + 14, 6 + 14)] = [4]"
proof -
  have a: "fill_symmetric_max 14 2 4 3 0 True = Inr [(2, 6), (8, 12)]"
    by code_simp
  have b: "fill_symmetric_helper 14 2 4 0 False True True True = Inr ([(2, 6), (8, 12)], True)"
    by code_simp
  have c: "map_sum id (\<lambda>fi. (fi_blk0 fi, fi_blk1 fi, fi_k fi, fi_m fi))
        (fill_symmetric_info 14 2 4 False True True) = Inr (3, 4, 0, 1)"
    by code_simp
  have d: "intv_gaps [(2, 6), (8, 12)] = [2]" "intv_gaps [(8, 12), (2 + 14, 6 + 14)] = [4]"
    by (simp_all add: intv_gaps_def)
  from a b c d show ?thesis by simp
qed



section \<open>Results on the routing grid\<close>

subsection \<open>The invariant of constructed grids\<close>

lemma example_grid_init: "RoutingGrid_init [1] [1] [1] ''x'' (Inl 100) = Inr example_grid"
  by (simp add: RoutingGrid_init_def add_new_layer_def empty_grid_def update_block_pitch_def
      example_grid_def Let_def)

lemma example_grid_constructed: "constructed example_grid"
  using example_grid_init by (rule constructed.init)

lemma grid_inv_empty: "grid_inv empty_grid"
  by (simp add: grid_inv_def empty_grid_def)

lemma add_new_layer_inv:
  assumes "grid_inv g"
    and "add_new_layer g layer_id sp_half w_half direction max_num_tr share_track override = Inr g'"
  shows "grid_inv g'"
proof (cases "sp_tracks g layer_id = None")
  case True
  then have "layer_id \<notin> dom (sp_tracks g)" by auto
  moreover have "dom (sp_tracks g) = set (layers g)"
    using assms(1) by (simp add: grid_inv_def)
  ultimately have notin: "layer_id \<notin> set (layers g)" by simp
  from assms(2) True have g': "g' = g\<lparr> layers := sort (layers g @ [layer_id]),
                  sp_tracks := (sp_tracks g)(layer_id \<mapsto> 2 * sp_half),
                  w_tracks := (w_tracks g)(layer_id \<mapsto> 2 * w_half),
                  dir_tracks := (dir_tracks g)(layer_id \<mapsto> direction),
                  max_num_tr_tracks := (max_num_tr_tracks g)(layer_id \<mapsto> max_num_tr),
                  offset_tracks := (offset_tracks g)(layer_id \<mapsto>
                     (if share_track then 0 else (2 * sp_half + 2 * w_half) div 2)) \<rparr>"
    by (simp add: add_new_layer_def Let_def)
  show ?thesis
    using assms(1) notin unfolding g' grid_inv_def
    by (auto split: if_splits)
next
  case False
  then have "layer_id \<in> dom (sp_tracks g)" by auto
  moreover have "dom (sp_tracks g) = set (layers g)"
    using assms(1) by (simp add: grid_inv_def)
  ultimately have inl: "layer_id \<in> set (layers g)" by simp
  from assms(2) False have g': "g' = g\<lparr> layers := layers g,
                  sp_tracks := (sp_tracks g)(layer_id \<mapsto> 2 * sp_half),
                  w_tracks := (w_tracks g)(layer_id \<mapsto> 2 * w_half),
                  dir_tracks := (dir_tracks g)(layer_id \<mapsto> direction),
                  max_num_tr_tracks := (max_num_tr_tracks g)(layer_id \<mapsto> max_num_tr),
                  offset_tracks := (offset_tracks g)(layer_id \<mapsto>
                     (if share_track then 0 else (2 * sp_half + 2 * w_half) div 2)) \<rparr>"
    by (simp add: add_new_layer_def Let_def split: if_splits)
  show ?thesis
    using assms(1) inl unfolding g' grid_inv_def
    by (auto split: if_splits)
qed

lemma add_layers_inv:
  "grid_inv g \<Longrightarrow> add_layers g xs cur_dir = Inr g' \<Longrightarrow> grid_inv g'"
proof (induction g xs cur_dir rule: add_layers.induct)
  case (1 g cur_dir)
  then show ?case by simp
next
  case (2 g lay sp w max_num rest cur_dir)
  from "2.prems"(2) obtain g1 where
    g1: "add_new_layer g lay sp w cur_dir max_num False False = Inr g1"
    and rest: "add_layers g1 rest (if cur_dir = ''x'' then ''y'' else ''x'') = Inr g'"
    by (auto split: sum.splits)
  from add_new_layer_inv[OF "2.prems"(1) g1] have "grid_inv g1" .
  with "2.IH"[OF g1] rest show ?case by simp
qed

text \<open>The block-pitch loop changes the block pitches only.\<close>

lemma update_block_pitch_loop_frame:
  "update_block_pitch_loop g rest pl = Inr g' \<Longrightarrow>
     layers g' = layers g \<and> sp_tracks g' = sp_tracks g \<and> w_tracks g' = w_tracks g
     \<and> offset_tracks g' = offset_tracks g \<and> dir_tracks g' = dir_tracks g"
proof (induction g rest pl rule: update_block_pitch_loop.induct)
  case (1 g pitch_list)
  then show ?case by simp
next
  case (2 g lay rest pitch_list)
  from "2.prems" obtain sp w cur_dir c where
    sp: "sp_tracks g lay = Some sp" and w: "w_tracks g lay = Some w"
    and d: "dir_tracks g lay = Some cur_dir"
    and c: "(if pitch_list \<noteq> [] then
              (case bot_pitch_iter g cur_dir (enumerate 0 pitch_list) of
                 Inl e \<Rightarrow> Inl e | Inr ps \<Rightarrow> lcm_py ps (sp + w))
            else Inr (sp + w)) = Inr c"
    and rest: "update_block_pitch_loop (g\<lparr> block_pitch := (block_pitch g)(lay \<mapsto> c) \<rparr>)
                 rest (pitch_list @ [c]) = Inr g'"
    by (auto split: option.splits sum.splits)
  from "2.IH"[OF sp w d c rest] show ?case by simp
qed

lemma grid_inv_block_pitch:
  "grid_inv g \<Longrightarrow> layers g' = layers g \<Longrightarrow> sp_tracks g' = sp_tracks g \<Longrightarrow>
   w_tracks g' = w_tracks g \<Longrightarrow> offset_tracks g' = offset_tracks g \<Longrightarrow>
   dir_tracks g' = dir_tracks g \<Longrightarrow> grid_inv g'"
  by (simp add: grid_inv_def)

lemma init_add_layers:
  assumes "RoutingGrid_init layer_ids spaces widths bot_dir max_num_tr = Inr g"
  obtains g0 xs where "add_layers empty_grid xs bot_dir = Inr g0"
    and "update_block_pitch_loop g0 (layers g0) [] = Inr g"
  using assms unfolding RoutingGrid_init_def Let_def update_block_pitch_def
  by (auto split: if_splits sum.splits)

lemma init_inv:
  assumes "RoutingGrid_init layer_ids spaces widths bot_dir max_num_tr = Inr g"
  shows "grid_inv g"
proof -
  from assms obtain g0 xs where a: "add_layers empty_grid xs bot_dir = Inr g0"
    and u: "update_block_pitch_loop g0 (layers g0) [] = Inr g"
    by (rule init_add_layers)
  from add_layers_inv[OF grid_inv_empty a] have "grid_inv g0" .
  with update_block_pitch_loop_frame[OF u] show ?thesis
    by (auto intro: grid_inv_block_pitch)
qed

lemma constructed_inv: "constructed g \<Longrightarrow> grid_inv g"
  by (induction rule: constructed.induct) (auto intro: init_inv add_new_layer_inv)


subsection \<open>Coordinates and tracks\<close>

lemma constructed_even_pitch:
  assumes "constructed g" "sp_tracks g layer_id = Some sp" "w_tracks g layer_id = Some w"
  shows "even (sp + w)"
  using constructed_inv[OF assms(1)] assms(2,3) by (auto simp: grid_inv_def)

text \<open>Division of a coordinate on a track, or halfway between two tracks, by an even pitch.\<close>

lemma on_track_divmod:
  fixes p j :: int
  assumes "p \<noteq> 0"
  shows "(j * (2 * p)) mod (2 * p) = 0" and "(j * (2 * p)) div (2 * p) = j"
  using assms by simp_all

lemma half_track_divmod:
  fixes p j :: int
  assumes "p \<noteq> 0"
  shows "(j * (2 * p) + p) mod (2 * p) = p" and "(j * (2 * p) + p) div (2 * p) = j"
proof -
  have m: "p mod (2 * p) = p"
  proof (cases "0 < p")
    case True
    then show ?thesis by (intro mod_pos_pos_trivial) simp_all
  next
    case False
    with assms have "p < 0" by simp
    then show ?thesis by (intro mod_neg_neg_trivial) simp_all
  qed
  have d: "p div (2 * p) = 0"
  proof (cases "0 < p")
    case True
    then show ?thesis by (intro div_pos_pos_trivial) simp_all
  next
    case False
    with assms have "p < 0" by simp
    then show ?thesis by (intro div_neg_neg_trivial) simp_all
  qed
  have "(j * (2 * p) + p) mod (2 * p) = p mod (2 * p)"
    by (metis add.commute mod_mult_self1)
  with m show "(j * (2 * p) + p) mod (2 * p) = p" by simp
  have "(p + j * (2 * p)) div (2 * p) = j + p div (2 * p)"
    using assms by (intro div_mult_self1) simp
  with d show "(j * (2 * p) + p) div (2 * p) = j" by (simp add: add.commute)
qed


subsection \<open>Numbers that a double holds exactly\<close>

text \<open>
  Rounding keeps every \<open>m * 2 ^ e\<close> with \<open>|m| < 2 ^ 53\<close> and \<open>- 1074 \<le> e\<close>: the integers
  and the odd multiples of one half below \<open>2 ^ 53\<close> in particular.
\<close>

lemma py_round_of_int: "py_round (of_int z) = z"
  by (simp add: py_round_def)

lemma floor_log2_le:
  assumes "0 < y"
  shows "2 powi (floor_log2 y) \<le> y"
proof -
  obtain n d where nd: "quotient_of y = (n, d)" by (cases "quotient_of y")
  then have d: "0 < d" by (rule quotient_of_denom_pos)
  have y: "y = of_int n / of_int d" using nd by (rule quotient_of_div)
  with assms d have n: "0 < n" by (simp add: zero_less_divide_iff)
  define k where "k = bitlen n - bitlen d"
  have fl: "floor_log2 y = (if 2 powi k \<le> y then k else k - 1)"
    by (simp add: floor_log2_def nd k_def Let_def)
  show ?thesis
  proof (cases "2 powi k \<le> y")
    case True
    then show ?thesis by (simp add: fl)
  next
    case False
    from bitlen_bounds[OF n] have a: "2 ^ nat (bitlen n - 1) \<le> n" by simp
    from bitlen_bounds[OF d] have b: "d < 2 ^ nat (bitlen d)" by simp
    have bn: "1 \<le> bitlen n" using n bitlen_eq_zero_iff[of n] bitlen_nonneg[of n] by arith
    have bd: "0 \<le> bitlen d" by (rule bitlen_nonneg)
    have "(2 :: rat) powi (k - 1) = 2 powi (bitlen n - 1) / 2 powi (bitlen d)"
      by (simp add: k_def power_int_diff)
    also have "\<dots> = 2 ^ nat (bitlen n - 1) / 2 ^ nat (bitlen d)"
      using bn bd by (simp add: power_int_def)
    also have "\<dots> \<le> of_int n / of_int d"
    proof (rule frac_le)
      show "(0 :: rat) \<le> of_int n" using n by simp
      have "(of_int (2 ^ nat (bitlen n - 1)) :: rat) \<le> of_int n" using a by (simp only: of_int_le_iff)
      then show "(2 :: rat) ^ nat (bitlen n - 1) \<le> of_int n" by simp
      show "(0 :: rat) < of_int d" using d by simp
      have "(of_int d :: rat) < of_int (2 ^ nat (bitlen d))" using b by (simp only: of_int_less_iff)
      then show "(of_int d :: rat) \<le> 2 ^ nat (bitlen d)" by simp
    qed
    finally have "2 powi (k - 1) \<le> y" unfolding y .
    with False show ?thesis by (simp only: fl if_False)
  qed
qed

lemma round_double_exact:
  assumes "\<bar>m\<bar> < 2 ^ 53" and "- 1074 \<le> e"
  shows "round_double (of_int m * 2 powi e) = of_int m * 2 powi e"
proof (cases "m = 0")
  case True
  then show ?thesis by (simp add: round_double_def)
next
  case False
  define x :: rat where "x = of_int m * 2 powi e"
  have x0: "x \<noteq> 0" using False by (simp add: x_def)
  then have pos: "0 < \<bar>x\<bar>" by simp
  have "\<bar>x\<bar> = of_int \<bar>m\<bar> * 2 powi e" by (simp add: x_def abs_mult)
  also have "\<dots> < of_int (2 ^ 53) * 2 powi e"
    using assms(1) by (intro mult_strict_right_mono) (simp_all only: of_int_less_iff zero_less_power_int zero_less_numeral)
  also have "\<dots> = 2 powi (53 + e)" by (simp add: power_int_add)
  finally have up: "\<bar>x\<bar> < 2 powi (53 + e)" .
  have "floor_log2 \<bar>x\<bar> < 53 + e"
  proof (rule ccontr)
    assume "\<not> floor_log2 \<bar>x\<bar> < 53 + e"
    then have "53 + e \<le> floor_log2 \<bar>x\<bar>" by simp
    then have "(2 :: rat) powi (53 + e) \<le> 2 powi (floor_log2 \<bar>x\<bar>)"
      by (intro power_int_increasing) simp_all
    with floor_log2_le[OF pos] up show False by simp
  qed
  define E where "E = max (floor_log2 \<bar>x\<bar>) (- 1022)"
  have E: "E - 52 \<le> e" using \<open>floor_log2 \<bar>x\<bar> < 53 + e\<close> assms(2) by (simp add: E_def)
  define j where "j = nat (e - (E - 52))"
  have e: "e = (E - 52) + int j" using E by (simp add: j_def)
  have q: "x / 2 powi (E - 52) = of_int (m * 2 ^ j)"
  proof -
    have "x = of_int m * (2 powi (E - 52) * 2 powi (int j))"
      unfolding x_def by (subst e) (simp add: power_int_add)
    then show ?thesis by simp
  qed
  have "round_double x = of_int (py_round (x / 2 powi (E - 52))) * 2 powi (E - 52)"
    using x0 by (simp add: round_double_def Let_def E_def)
  also have "\<dots> = of_int (m * 2 ^ j) * 2 powi (E - 52)"
    by (simp only: q py_round_of_int)
  also have "\<dots> = x / 2 powi (E - 52) * 2 powi (E - 52)" by (simp only: q)
  also have "\<dots> = x" by simp
  finally show ?thesis by (simp add: x_def)
qed

lemma rounded_int:
  assumes "\<bar>n\<bar> < 2 ^ 53"
  shows "rounded (of_int n) = Finite (of_int n)"
proof -
  have r: "round_double (of_int n) = of_int n"
    using round_double_exact[OF assms, of 0] by simp
  have "(of_int \<bar>n\<bar> :: rat) < of_int (2 ^ 53)" using assms by (simp only: of_int_less_iff)
  then have "\<bar>of_int n :: rat\<bar> < 2 ^ 53" by simp
  also have "(2 :: rat) ^ 53 < 2 ^ 1024" by simp
  finally show ?thesis by (simp add: rounded_def r)
qed

lemma rounded_half:
  assumes "\<bar>n\<bar> < 2 ^ 53"
  shows "rounded (of_int n / 2) = Finite (of_int n / 2)"
proof -
  have r: "round_double (of_int n / 2) = of_int n / 2"
    using round_double_exact[OF assms, of "- 1"] by (simp add: power_int_minus field_simps)
  have "(of_int \<bar>n\<bar> :: rat) < of_int (2 ^ 53)" using assms by (simp only: of_int_less_iff)
  then have "\<bar>of_int n :: rat\<bar> < 2 ^ 53" by simp
  then have "\<bar>of_int n / 2 :: rat\<bar> < 2 ^ 53" by simp
  also have "(2 :: rat) ^ 53 < 2 ^ 1024" by simp
  finally show ?thesis by (simp add: rounded_def r)
qed

lemma int_to_float_exact:
  "\<bar>n\<bar> < 2 ^ 53 \<Longrightarrow> int_to_float n = Inr (Finite (of_int n))"
  by (simp add: int_to_float_def rounded_int)

subsection \<open>The two conversions on a layer of even pitch\<close>

lemma coord_to_track_eq:
  assumes "coord_units res arg = Inr coord"
    and "sp_tracks g layer_id = Some sp" "w_tracks g layer_id = Some w"
    and "offset_tracks g layer_id = Some off" "sp + w \<noteq> 0"
  shows "coord_to_track g res layer_id arg =
     (if (coord - off) mod (sp + w) = 0 then Inr (PyInt ((coord - off) div (sp + w)))
      else if (coord - off) mod (sp + w) = (sp + w) div 2
           then (case int_to_float ((coord - off) div (sp + w)) of
                   Inl e \<Rightarrow> Inl e
                 | Inr qf \<Rightarrow> Inr (PyFloat (fadd qf (Finite (1 / 2)))))
      else (case int_to_float coord of Inl e \<Rightarrow> Inl e | Inr cf \<Rightarrow> Inl NotOnTrack))"
  using assms by (simp add: coord_to_track_def Let_def)

lemma float_plus_half:
  assumes "\<bar>2 * q + 1\<bar> < (2 :: int) ^ 53"
  shows "int_to_float q = Inr (Finite (of_int q))"
    and "fadd (Finite (of_int q)) (Finite (1 / 2)) = Finite (of_int q + 1 / 2)"
proof -
  from assms have "\<bar>q\<bar> < 2 ^ 53" by simp
  then show "int_to_float q = Inr (Finite (of_int q))" by (rule int_to_float_exact)
  have "(of_int q :: rat) + 1 / 2 = of_int (2 * q + 1) / 2" by simp
  then show "fadd (Finite (of_int q)) (Finite (1 / 2)) = Finite (of_int q + 1 / 2)"
    using rounded_half[OF assms] by (simp only: fadd.simps)
qed

lemma half_coord_to_track:
  assumes "coord_units res arg = Inr coord"
    and "sp_tracks g layer_id = Some sp" "w_tracks g layer_id = Some w"
    and "offset_tracks g layer_id = Some off" "sp + w \<noteq> 0" "even (sp + w)"
    and "coord = off + q * (sp + w) + (sp + w) div 2"
    and "\<bar>2 * q + 1\<bar> < 2 ^ 53"
  shows "coord_to_track g res layer_id arg = Inr (PyFloat (Finite (of_int q + 1 / 2)))"
proof -
  from assms(6) obtain p where p: "sp + w = 2 * p" by (rule evenE)
  with assms(5) have p0: "p \<noteq> 0" by simp
  have c: "coord - off = q * (2 * p) + p" using assms(7) p by simp
  have "coord_to_track g res layer_id arg =
          (case int_to_float q of
             Inl e \<Rightarrow> Inl e
           | Inr qf \<Rightarrow> Inr (PyFloat (fadd qf (Finite (1 / 2)))))"
    unfolding coord_to_track_eq[OF assms(1-5)] c p
    using half_track_divmod[OF p0, of q] p0 by simp
  then show ?thesis by (simp only: float_plus_half[OF assms(8)] sum.case)
qed

lemma full_coord_to_track:
  assumes "coord_units res arg = Inr coord"
    and "sp_tracks g layer_id = Some sp" "w_tracks g layer_id = Some w"
    and "offset_tracks g layer_id = Some off" "sp + w \<noteq> 0"
    and "coord = off + q * (sp + w)"
  shows "coord_to_track g res layer_id arg = Inr (PyInt q)"
proof -
  have c: "coord - off = q * (sp + w)" using assms(6) by simp
  show ?thesis
    unfolding coord_to_track_eq[OF assms(1-5)] c
    using assms(5) by simp
qed


lemma track_to_coord_int:
  assumes "sp_tracks g layer_id = Some sp" "w_tracks g layer_id = Some w"
    and "offset_tracks g layer_id = Some off"
    and "\<bar>(sp + w) * n + off\<bar> < 2 ^ 53"
  shows "track_to_coord g (Finite r) layer_id (PyInt n)
           = Inr (rounded (of_int ((sp + w) * n + off) * r))"
  using assms(1-3) by (simp add: track_to_coord_def Let_def int_to_float_exact[OF assms(4)])

lemma track_to_coord_half:
  assumes "sp_tracks g layer_id = Some sp" "w_tracks g layer_id = Some w"
    and "offset_tracks g layer_id = Some off"
    and "sp + w = 2 * p"
    and "\<bar>sp + w\<bar> < 2 ^ 53" "\<bar>off\<bar> < 2 ^ 53"
    and "\<bar>(sp + w) * q + p\<bar> < 2 ^ 53"
    and "\<bar>(sp + w) * q + p + off\<bar> < 2 ^ 53"
  shows "track_to_coord g (Finite r) layer_id (PyFloat (Finite (of_int q + 1 / 2)))
           = Inr (rounded (of_int ((sp + w) * q + p + off) * r))"
proof -
  have a: "(of_int (sp + w) :: rat) * (of_int q + 1 / 2) = of_int ((sp + w) * q + p)"
    by (simp add: assms(4) algebra_simps)
  have m: "fmul (Finite (of_int (sp + w))) (Finite (of_int q + 1 / 2))
             = Finite (of_int ((sp + w) * q + p))"
    using rounded_int[OF assms(7)] by (simp only: fmul.simps a)
  have b: "(of_int ((sp + w) * q + p) :: rat) + of_int off = of_int ((sp + w) * q + p + off)"
    by simp
  have s: "fadd (Finite (of_int ((sp + w) * q + p))) (Finite (of_int off))
             = Finite (of_int ((sp + w) * q + p + off))"
    using rounded_int[OF assms(8)] by (simp only: fadd.simps b)
  have "track_to_coord g (Finite r) layer_id (PyFloat (Finite (of_int q + 1 / 2)))
          = Inr (fmul (fadd (fmul (Finite (of_int (sp + w))) (Finite (of_int q + 1 / 2)))
                         (Finite (of_int off))) (Finite r))"
    using assms(1-3)
    by (simp add: track_to_coord_def Let_def int_to_float_exact[OF assms(5)]
        int_to_float_exact[OF assms(6)] del: fmul.simps fadd.simps)
  also have "\<dots> = Inr (fmul (Finite (of_int ((sp + w) * q + p + off))) (Finite r))"
    by (simp only: m s)
  also have "\<dots> = Inr (rounded (of_int ((sp + w) * q + p + off) * r))"
    by (simp only: fmul.simps)
  finally show ?thesis .
qed

lemma coord_units_Units: "coord_units res (Units c) = Inr c"
  by (simp add: coord_units_def)


lemma coord_units_Layout_float:
  assumes "r \<noteq> 0" and "rounded (x / r) = Finite y"
  shows "coord_units (Finite r) (Layout (PyFloat (Finite x))) = Inr (py_round y)"
  using assms by (simp add: coord_units_def to_float_def)

text \<open>A rounded value of moderate size is not an overflow.\<close>

lemma rounded_eqI:
  assumes "round_double x = y" and "\<bar>y\<bar> < 2 ^ 64"
  shows "rounded x = Finite y"
proof -
  have "(2 :: rat) ^ 64 < 2 ^ 1024" by simp
  with assms(2) have "\<bar>y\<bar> < 2 ^ 1024" by (rule less_trans)
  then show ?thesis by (simp add: rounded_def assms(1))
qed

text \<open>The doubles of the examples.\<close>

lemma example_resolution_eq:
  "example_resolution = Finite (1152921504606847 / 1152921504606846976)"
  unfolding example_resolution_def by (rule rounded_eqI) (code_simp, simp)

lemma example_grid_tracks:
  "sp_tracks example_grid 1 = Some 2" "w_tracks example_grid 1 = Some 2"
  "offset_tracks example_grid 1 = Some 2"
  by (simp_all add: example_grid_def)

lemma float_0018: "rounded (18 / 1000) = Finite (5188146770730811 / 288230376151711744)"
  by (rule rounded_eqI) (code_simp, simp)


lemma units_0018:
  "coord_units example_resolution (Layout (PyFloat (rounded (18 / 1000)))) = Inr 18"
proof -
  have nz: "(1152921504606847 / 1152921504606846976 :: rat) \<noteq> 0" by simp
  have d: "rounded ((5188146770730811 / 288230376151711744)
                     / (1152921504606847 / 1152921504606846976)) = Finite 18"
    by (rule rounded_eqI) (code_simp, simp)
  have "py_round 18 = 18" using py_round_of_int[of 18] by simp
  with coord_units_Layout_float[OF nz d] show ?thesis
    by (simp only: example_resolution_eq float_0018)
qed


subsection \<open>The claims on coordinates and tracks\<close>

text \<open>
  C3 (counterexample). On the one-layer example grid with the resolution \<open>0.001\<close>, the
  layout coordinate \<open>0.018\<close> is 18 resolution units, on track 4. \<open>coord_to_track\<close>
  returns 4 and \<open>track_to_coord\<close> returns \<open>18 * 0.001\<close>, the double
  \<open>0.018000000000000002\<close>, which is not the double \<open>0.018\<close>. With \<open>unit_mode=True\<close> the
  coordinate 8 gives the track \<open>1.5\<close>, which comes back as \<open>0.008\<close>, in layout units.
\<close>

theorem coord_track_round_trip_counterexample:
  "rounded (18 / 1000) = Finite (5188146770730811 / 288230376151711744)
   \<and> coord_to_track example_grid example_resolution 1 (Layout (PyFloat (rounded (18 / 1000))))
       = Inr (PyInt 4)
   \<and> track_to_coord example_grid example_resolution 1 (PyInt 4)
       = Inr (Finite (1297036692682703 / 72057594037927936))
   \<and> Finite (1297036692682703 / 72057594037927936) \<noteq> rounded (18 / 1000)
   \<and> coord_to_track example_grid example_resolution 1 (Units 8) = Inr (PyFloat (Finite (3 / 2)))
   \<and> track_to_coord example_grid example_resolution 1 (PyFloat (Finite (3 / 2)))
       = Inr (Finite (1152921504606847 / 144115188075855872))"
proof -
  have ne: "(2 :: int) + 2 \<noteq> 0" by simp
  have b: "coord_to_track example_grid example_resolution 1
             (Layout (PyFloat (rounded (18 / 1000)))) = Inr (PyInt 4)"
    by (rule full_coord_to_track[OF units_0018 example_grid_tracks ne]) simp
  have "\<bar>(2 + 2) * 4 + 2 :: int\<bar> < 2 ^ 53" by simp
  from track_to_coord_int[OF example_grid_tracks this]
  have "track_to_coord example_grid example_resolution 1 (PyInt 4)
          = Inr (rounded (of_int ((2 + 2) * 4 + 2) * (1152921504606847 / 1152921504606846976)))"
    by (simp only: example_resolution_eq)
  moreover have "rounded (of_int ((2 + 2) * 4 + 2) * (1152921504606847 / 1152921504606846976))
                   = Finite (1297036692682703 / 72057594037927936)"
    by (rule rounded_eqI) (code_simp, simp)
  ultimately have c: "track_to_coord example_grid example_resolution 1 (PyInt 4)
       = Inr (Finite (1297036692682703 / 72057594037927936))"
    by (simp only:)
  have d: "Finite (1297036692682703 / 72057594037927936) \<noteq> rounded (18 / 1000)"
    unfolding float_0018 by simp
  have e: "coord_to_track example_grid example_resolution 1 (Units 8)
             = Inr (PyFloat (Finite (of_int 1 + 1 / 2)))"
    by (rule half_coord_to_track[OF coord_units_Units example_grid_tracks ne]) simp_all
  have "track_to_coord example_grid example_resolution 1 (PyFloat (Finite (of_int 1 + 1 / 2)))
          = Inr (rounded (of_int ((2 + 2) * 1 + 2 + 2) * (1152921504606847 / 1152921504606846976)))"
    unfolding example_resolution_eq
    by (rule track_to_coord_half[OF example_grid_tracks]) simp_all
  moreover have "rounded (of_int ((2 + 2) * 1 + 2 + 2) * (1152921504606847 / 1152921504606846976))
                   = Finite (1152921504606847 / 144115188075855872)"
    by (rule rounded_eqI) (code_simp, simp)
  ultimately have f: "track_to_coord example_grid example_resolution 1
       (PyFloat (Finite (of_int 1 + 1 / 2)))
       = Inr (Finite (1152921504606847 / 144115188075855872))"
    by (simp only:)
  have h: "(of_int 1 + 1 / 2 :: rat) = 3 / 2" by simp
  from float_0018 b c d e f show ?thesis by (simp only: h simp_thms)
qed

text \<open>
  C3 (amended). On a grid the program can build, take a layer of nonzero pitch and a
  coordinate whose value in resolution units is \<open>coord\<close>: an integer passed with
  \<open>unit_mode=True\<close>, or a layout coordinate that \<open>int(round(x / resolution))\<close> turns into
  \<open>coord\<close>. When \<open>coord\<close> lies on a track or half-track boundary of the layer (the offset
  plus a multiple of half the pitch) and \<open>coord\<close>, the offset and the pitch are below
  \<open>2 ^ 52\<close> in magnitude, \<open>coord_to_track\<close> returns a track index and \<open>track_to_coord\<close>
  maps that index to the \<open>float\<close> product \<open>coord * resolution\<close>, the double nearest to the
  exact product.
\<close>

theorem coord_track_round_trip_units:
  assumes "constructed g"
    and "sp_tracks g layer_id = Some sp" "w_tracks g layer_id = Some w"
    and "offset_tracks g layer_id = Some off"
    and "sp + w \<noteq> 0"
    and "coord_units (Finite r) arg = Inr coord"
    and "coord = off + h * ((sp + w) div 2)"
    and "\<bar>coord\<bar> < 2 ^ 52" "\<bar>off\<bar> < 2 ^ 52" "\<bar>sp + w\<bar> < 2 ^ 52"
  shows "\<exists>t. coord_to_track g (Finite r) layer_id arg = Inr t
            \<and> track_to_coord g (Finite r) layer_id t = Inr (rounded (of_int coord * r))"
proof -
  from constructed_even_pitch[OF assms(1-3)] obtain p where p: "sp + w = 2 * p"
    by (rule evenE)
  have ev: "even (sp + w)" using p by simp
  from p assms(5) have p0: "p \<noteq> 0" by simp
  show ?thesis
  proof (cases "even h")
    case True
    then obtain j where j: "h = 2 * j" by (rule evenE)
    have c: "coord = off + j * (sp + w)" using assms(7) j p by simp
    then have c': "(sp + w) * j + off = coord" by (simp add: algebra_simps)
    have "coord_to_track g (Finite r) layer_id arg = Inr (PyInt j)"
      using full_coord_to_track[OF assms(6) assms(2-5) c] .
    moreover have "\<bar>(sp + w) * j + off\<bar> < 2 ^ 53" using assms(8) c' by simp
    then have "track_to_coord g (Finite r) layer_id (PyInt j)
                 = Inr (rounded (of_int ((sp + w) * j + off) * r))"
      by (rule track_to_coord_int[OF assms(2-4)])
    ultimately show ?thesis unfolding c' by blast
  next
    case False
    then obtain j where j: "h = 2 * j + 1" by (rule oddE)
    have c: "coord = off + j * (sp + w) + (sp + w) div 2" using assms(7) j p
      by (simp add: algebra_simps)
    have c': "(sp + w) * j + p + off = coord" using c p by (simp add: algebra_simps)
    have d: "coord - off = (2 * j + 1) * p" using c p by (simp add: algebra_simps)
    have small: "\<bar>coord - off\<bar> < 2 ^ 53" using assms(8,9) by simp
    have "\<bar>2 * j + 1\<bar> * 1 \<le> \<bar>2 * j + 1\<bar> * \<bar>p\<bar>"
      using p0 by (intro mult_left_mono) simp_all
    also have "\<dots> = \<bar>coord - off\<bar>" by (simp add: d abs_mult)
    finally have jb: "\<bar>2 * j + 1\<bar> < 2 ^ 53" using small by simp
    have "coord_to_track g (Finite r) layer_id arg = Inr (PyFloat (Finite (of_int j + 1 / 2)))"
      using half_coord_to_track[OF assms(6) assms(2-5) ev c jb] .
    moreover have "track_to_coord g (Finite r) layer_id (PyFloat (Finite (of_int j + 1 / 2)))
             = Inr (rounded (of_int ((sp + w) * j + p + off) * r))"
    proof (rule track_to_coord_half[OF assms(2-4) p])
      show "\<bar>sp + w\<bar> < 2 ^ 53" using assms(10) by simp
      show "\<bar>off\<bar> < 2 ^ 53" using assms(9) by simp
      have "(sp + w) * j + p = coord - off" using c' by simp
      then show "\<bar>(sp + w) * j + p\<bar> < 2 ^ 53" using small by simp
      show "\<bar>(sp + w) * j + p + off\<bar> < 2 ^ 53" using assms(8) c' by simp
    qed
    ultimately show ?thesis unfolding c' by blast
  qed
qed

theorem coord_track_round_trip_units_witness:
  "constructed example_grid
   \<and> coord_units example_resolution (Layout (PyFloat (rounded (18 / 1000)))) = Inr 18
   \<and> coord_to_track example_grid example_resolution 1 (Layout (PyFloat (rounded (18 / 1000))))
       = Inr (PyInt 4)
   \<and> track_to_coord example_grid example_resolution 1 (PyInt 4)
       = Inr (rounded (of_int 18 * (1152921504606847 / 1152921504606846976)))"
proof -
  have u: "coord_units (Finite (1152921504606847 / 1152921504606846976))
             (Layout (PyFloat (rounded (18 / 1000)))) = Inr 18"
    using units_0018 by (simp only: example_resolution_eq)
  have b: "(2 :: int) + 2 \<noteq> 0" "(18 :: int) = 2 + 8 * ((2 + 2) div 2)"
    "\<bar>18 :: int\<bar> < 2 ^ 52" "\<bar>2 :: int\<bar> < 2 ^ 52" "\<bar>2 + 2 :: int\<bar> < 2 ^ 52"
    by simp_all
  from coord_track_round_trip_units[OF example_grid_constructed example_grid_tracks b(1) u b(2-5)]
  obtain t where t:
    "coord_to_track example_grid (Finite (1152921504606847 / 1152921504606846976)) 1
       (Layout (PyFloat (rounded (18 / 1000)))) = Inr t"
    "track_to_coord example_grid (Finite (1152921504606847 / 1152921504606846976)) 1 t
       = Inr (rounded (of_int 18 * (1152921504606847 / 1152921504606846976)))"
    by blast
  have e: "coord_to_track example_grid example_resolution 1
             (Layout (PyFloat (rounded (18 / 1000)))) = Inr (PyInt 4)"
    by (rule full_coord_to_track[OF units_0018 example_grid_tracks b(1)]) simp
  from t(1) e have "Inr t = (Inr (PyInt 4) :: error + pynum)"
    by (simp only: example_resolution_eq)
  then have "t = PyInt 4" by (simp only: sum.inject)
  with t(2) have "track_to_coord example_grid example_resolution 1 (PyInt 4)
       = Inr (rounded (of_int 18 * (1152921504606847 / 1152921504606846976)))"
    by (simp only: example_resolution_eq)
  with e units_0018 example_grid_constructed show ?thesis by (simp only: simp_thms)
qed





subsection \<open>Block pitch\<close>

lemma gcd_py_abs: "\<bar>gcd_py a b\<bar> = gcd a b"
proof (induction a b rule: gcd_py.induct)
  case (1 a b)
  show ?case
  proof (cases "b = 0")
    case True
    then show ?thesis by (subst gcd_py.simps) simp
  next
    case False
    have "\<bar>gcd_py a b\<bar> = \<bar>gcd_py b (a mod b)\<bar>"
      using False by (subst gcd_py.simps) simp
    also have "\<dots> = gcd b (a mod b)" using "1.IH"[OF False] .
    also have "\<dots> = gcd a b" by (metis gcd.commute gcd_red_int)
    finally show ?thesis .
  qed
qed

lemma gcd_py_dvd: "gcd_py a b dvd a" "gcd_py a b dvd b"
proof -
  have "\<bar>gcd_py a b\<bar> dvd a" "\<bar>gcd_py a b\<bar> dvd b"
    unfolding gcd_py_abs by simp_all
  then show "gcd_py a b dvd a" "gcd_py a b dvd b" by simp_all
qed

lemma lcm_step_dvd:
  shows "c dvd c * v div gcd_py c v" and "v dvd c * v div gcd_py c v"
proof -
  have "c * v div gcd_py c v = c * (v div gcd_py c v)"
    using gcd_py_dvd(2)[of c v] by (simp add: div_mult_swap)
  then show "c dvd c * v div gcd_py c v" by simp
  have "c * v div gcd_py c v = c div gcd_py c v * v"
    using gcd_py_dvd(1)[of c v] by (simp add: dvd_div_mult)
  then show "v dvd c * v div gcd_py c v" by simp
qed

lemma lcm_py_dvd:
  "lcm_py arr c = Inr r \<Longrightarrow> c dvd r \<and> (\<forall>v \<in> set arr. v dvd r)"
proof (induction arr arbitrary: c)
  case Nil
  then show ?case by simp
next
  case (Cons v arr)
  from Cons.prems have r: "lcm_py arr (c * v div gcd_py c v) = Inr r"
    by (simp split: if_splits)
  from Cons.IH[OF r] have a: "c * v div gcd_py c v dvd r" and b: "\<forall>x \<in> set arr. x dvd r"
    by simp_all
  from a lcm_step_dvd(1)[of c v] have "c dvd r" by (rule dvd_trans[rotated])
  moreover from a lcm_step_dvd(2)[of v c] have "v dvd r" by (rule dvd_trans[rotated])
  ultimately show ?case using b by simp
qed

lemma bot_pitch_iter_mem:
  "bot_pitch_iter g d (enumerate n xs) = Inr ps \<Longrightarrow> k < length xs \<Longrightarrow>
   dir_tracks g (layers g ! (n + k)) = Some d \<Longrightarrow> xs ! k \<in> set ps"
proof (induction xs arbitrary: n k ps)
  case Nil
  then show ?case by simp
next
  case (Cons x xs)
  from Cons.prems(1) obtain d0 ps0 where
    d0: "dir_tracks g (layers g ! n) = Some d0"
    and ps0: "bot_pitch_iter g d (enumerate (Suc n) xs) = Inr ps0"
    and ps: "ps = (if d0 = d then x # ps0 else ps0)"
    by (auto split: if_splits option.splits sum.splits)
  show ?case
  proof (cases k)
    case 0
    with Cons.prems(3) d0 ps show ?thesis by simp
  next
    case (Suc k')
    with Cons.prems have "k' < length xs" "dir_tracks g (layers g ! (Suc n + k')) = Some d"
      by simp_all
    from Cons.IH[OF ps0 this] have "xs ! k' \<in> set ps0" .
    with Suc ps show ?thesis by simp
  qed
qed


lemma pitches_ok_step:
  assumes ok: "pitches_ok g ds pl"
    and lay: "layers g = ds @ lay # rest" and dist: "distinct (ds @ lay # rest)"
    and sp: "sp_tracks g lay = Some sp" and w: "w_tracks g lay = Some w"
    and d: "dir_tracks g lay = Some cur_dir"
    and c: "(if pl \<noteq> [] then
              (case bot_pitch_iter g cur_dir (enumerate 0 pl) of
                 Inl e \<Rightarrow> Inl e | Inr ps \<Rightarrow> lcm_py ps (sp + w))
            else Inr (sp + w)) = Inr c"
  shows "pitches_ok (g\<lparr> block_pitch := (block_pitch g)(lay \<mapsto> c) \<rparr>) (ds @ [lay]) (pl @ [c])"
proof -
  let ?g = "g\<lparr> block_pitch := (block_pitch g)(lay \<mapsto> c) \<rparr>"
  from ok have len: "length pl = length ds" by (simp add: pitches_ok_def)
  have own: "(sp + w) dvd c"
  proof (cases "pl = []")
    case True
    with c show ?thesis by simp
  next
    case False
    with c obtain ps where "lcm_py ps (sp + w) = Inr c" by (auto split: sum.splits)
    from lcm_py_dvd[OF this] show ?thesis by simp
  qed
  have earlier: "pl ! j dvd c" if j: "j < length ds" and dj: "dir_tracks g (ds ! j) = Some cur_dir" for j
  proof -
    from j len have ne: "pl \<noteq> []" by auto
    with c obtain ps where ps: "bot_pitch_iter g cur_dir (enumerate 0 pl) = Inr ps"
      and l: "lcm_py ps (sp + w) = Inr c" by (auto split: sum.splits)
    have "layers g ! (0 + j) = ds ! j" using lay j by (simp add: nth_append)
    with dj have "dir_tracks g (layers g ! (0 + j)) = Some cur_dir" by simp
    from bot_pitch_iter_mem[OF ps _ this] j len have "pl ! j \<in> set ps" by simp
    with lcm_py_dvd[OF l] show ?thesis by simp
  qed
  show ?thesis
    unfolding pitches_ok_def
  proof (intro conjI allI impI)
    show "length (pl @ [c]) = length (ds @ [lay])" using len by simp
  next
    fix i assume i: "i < length (ds @ [lay])"
    show "block_pitch ?g ((ds @ [lay]) ! i) = Some ((pl @ [c]) ! i)"
    proof (cases "i < length ds")
      case True
      then have "ds ! i \<in> set ds" by simp
      with dist have "ds ! i \<noteq> lay" by auto
      with True ok len show ?thesis by (simp add: nth_append pitches_ok_def)
    next
      case False
      with i have "i = length ds" by simp
      with len show ?thesis by (simp add: nth_append)
    qed
  next
    fix i sp' w'
    assume i: "i < length (ds @ [lay])"
      and s: "sp_tracks ?g ((ds @ [lay]) ! i) = Some sp'"
      and ww: "w_tracks ?g ((ds @ [lay]) ! i) = Some w'"
    show "(sp' + w') dvd (pl @ [c]) ! i"
    proof (cases "i < length ds")
      case True
      with s ww ok len show ?thesis by (simp add: nth_append pitches_ok_def)
    next
      case False
      with i have "i = length ds" by simp
      with s ww sp w own len show ?thesis by (simp add: nth_append)
    qed
  next
    fix i j
    assume i: "i < length (ds @ [lay])" and j: "j < i"
      and dd: "dir_tracks ?g ((ds @ [lay]) ! j) = dir_tracks ?g ((ds @ [lay]) ! i)"
    show "(pl @ [c]) ! j dvd (pl @ [c]) ! i"
    proof (cases "i < length ds")
      case True
      with j dd ok len show ?thesis by (simp add: nth_append pitches_ok_def)
    next
      case False
      with i have ii: "i = length ds" by simp
      with j dd d have "dir_tracks g (ds ! j) = Some cur_dir" by (simp add: nth_append)
      from earlier[OF _ this] j ii len show ?thesis by (simp add: nth_append)
    qed
  qed
qed

lemma update_block_pitch_loop_ok:
  assumes "update_block_pitch_loop g rest pl = Inr g'"
    and "layers g = ds @ rest" and "distinct (ds @ rest)" and "pitches_ok g ds pl"
  shows "\<exists>pl'. pitches_ok g' (ds @ rest) pl'"
  using assms
proof (induction rest arbitrary: g ds pl)
  case Nil
  then show ?case by auto
next
  case (Cons lay rest)
  from Cons.prems(1) obtain sp w cur_dir c where
    sp: "sp_tracks g lay = Some sp" and w: "w_tracks g lay = Some w"
    and d: "dir_tracks g lay = Some cur_dir"
    and c: "(if pl \<noteq> [] then
              (case bot_pitch_iter g cur_dir (enumerate 0 pl) of
                 Inl e \<Rightarrow> Inl e | Inr ps \<Rightarrow> lcm_py ps (sp + w))
            else Inr (sp + w)) = Inr c"
    and rest: "update_block_pitch_loop (g\<lparr> block_pitch := (block_pitch g)(lay \<mapsto> c) \<rparr>)
                 rest (pl @ [c]) = Inr g'"
    by (auto split: option.splits sum.splits)
  let ?g = "g\<lparr> block_pitch := (block_pitch g)(lay \<mapsto> c) \<rparr>"
  have ok: "pitches_ok ?g (ds @ [lay]) (pl @ [c])"
    using pitches_ok_step[OF Cons.prems(4) Cons.prems(2) Cons.prems(3) sp w d c] .
  have l: "layers ?g = (ds @ [lay]) @ rest" using Cons.prems(2) by simp
  have di: "distinct ((ds @ [lay]) @ rest)" using Cons.prems(3) by simp
  from Cons.IH[OF rest l di ok] show ?case by simp
qed

lemma sorted_distinct_index_le:
  fixes ls :: "int list"
  assumes "sorted ls" "distinct ls" "i < length ls" "j < length ls" "ls ! j \<le> ls ! i"
  shows "j \<le> i"
proof (rule ccontr)
  assume "\<not> j \<le> i"
  then have ij: "i < j" by simp
  with assms(1,4) have "ls ! i \<le> ls ! j" by (simp add: sorted_nth_mono)
  with assms(5) have "ls ! i = ls ! j" by simp
  with assms(2,3,4) have "i = j" by (simp add: nth_eq_iff_index_eq)
  with ij show False by simp
qed

text \<open>
  C5. After \<open>RoutingGrid.__init__\<close>, for every layer \<open>L\<close> and every layer \<open>L'\<close> at or below
  it with the same track direction, the block pitch of \<open>L\<close> is a multiple of the pitch
  \<open>w + sp\<close> of \<open>L'\<close>: the remainder is zero. (For a layer of pitch zero, where
  Python's \<open>%\<close> would raise, the statement says that the block pitch is zero too.)
\<close>

theorem block_pitch_divisible:
  assumes "RoutingGrid_init layer_ids spaces widths bot_dir max_num_tr = Inr g"
    and "L \<in> set (layers g)" and "L' \<in> set (layers g)" and "L' \<le> L"
    and "dir_tracks g L' = dir_tracks g L"
  shows "\<exists>bp sp w. block_pitch g L = Some bp \<and> sp_tracks g L' = Some sp
           \<and> w_tracks g L' = Some w \<and> bp mod (sp + w) = 0"
proof -
  from assms(1) obtain g0 xs where a: "add_layers empty_grid xs bot_dir = Inr g0"
    and u: "update_block_pitch_loop g0 (layers g0) [] = Inr g"
    by (rule init_add_layers)
  have inv0: "grid_inv g0" using add_layers_inv[OF grid_inv_empty a] .
  have inv: "grid_inv g" using init_inv[OF assms(1)] .
  have fr: "layers g = layers g0" using update_block_pitch_loop_frame[OF u] by simp
  have "distinct ([] @ layers g0)" using inv0 by (simp add: grid_inv_def)
  moreover have "pitches_ok g0 [] []" by (simp add: pitches_ok_def)
  ultimately obtain pl where "pitches_ok g ([] @ layers g0) pl"
    using update_block_pitch_loop_ok[OF u, of "[]"] by auto
  with fr have ok: "pitches_ok g (layers g) pl" by simp
  from assms(2) obtain i where i: "i < length (layers g)" "layers g ! i = L"
    by (auto simp: in_set_conv_nth)
  from assms(3) obtain j where j: "j < length (layers g)" "layers g ! j = L'"
    by (auto simp: in_set_conv_nth)
  have "sorted (layers g)" "distinct (layers g)" using inv by (simp_all add: grid_inv_def)
  from sorted_distinct_index_le[OF this i(1) j(1)] assms(4) i(2) j(2) have ji: "j \<le> i"
    by simp
  from inv assms(3) obtain sp w where sp: "sp_tracks g L' = Some sp" and w: "w_tracks g L' = Some w"
    unfolding grid_inv_def by (metis domD)
  from ok i have bp: "block_pitch g L = Some (pl ! i)" by (auto simp: pitches_ok_def)
  from ok j sp w have own: "(sp + w) dvd pl ! j" by (auto simp: pitches_ok_def)
  have "(sp + w) dvd pl ! i"
  proof (cases "j = i")
    case True
    with own show ?thesis by simp
  next
    case False
    with ji have "j < i" by simp
    with ok i j assms(5) have "pl ! j dvd pl ! i" by (auto simp: pitches_ok_def)
    with own show ?thesis by (rule dvd_trans)
  qed
  then have "pl ! i mod (sp + w) = 0" by (simp add: mod_eq_0_iff_dvd)
  with bp sp w show ?thesis
    by (intro exI[of _ "pl ! i"] exI[of _ sp] exI[of _ w]) simp
qed

lemma example_grid3_init:
  "RoutingGrid_init [1, 2, 3] [2, 2, 3] [1, 1, 1] ''x'' (Inl 100) = Inr example_grid3"
  by (simp add: RoutingGrid_init_def add_new_layer_def empty_grid_def update_block_pitch_def
      example_grid3_def Let_def gcd_py.simps)

theorem block_pitch_divisible_witness:
  "RoutingGrid_init [1, 2, 3] [2, 2, 3] [1, 1, 1] ''x'' (Inl 100) = Inr example_grid3
   \<and> dir_tracks example_grid3 1 = dir_tracks example_grid3 3
   \<and> block_pitch example_grid3 3 = Some 24
   \<and> sp_tracks example_grid3 1 = Some 4 \<and> w_tracks example_grid3 1 = Some 2
   \<and> (24 :: int) mod (4 + 2) = 0"
proof -
  have l: "3 \<in> set (layers example_grid3)" "1 \<in> set (layers example_grid3)" "(1 :: int) \<le> 3"
    and d: "dir_tracks example_grid3 1 = dir_tracks example_grid3 3"
    by (simp_all add: example_grid3_def)
  from block_pitch_divisible[OF example_grid3_init l d] example_grid3_init d
  show ?thesis by (simp add: example_grid3_def)
qed


section \<open>Results on track sets and power fill\<close>

subsection \<open>What \<open>add_track\<close> and \<open>subtract\<close> keep\<close>

lemma min_len_ok_iff:
  "min_len_ok ts \<longleftrightarrow> (\<forall>(hidx, s) \<in> set (tracks ts). long_enough (min_len ts) s)"
proof
  assume a: "min_len_ok ts"
  show "\<forall>(hidx, s) \<in> set (tracks ts). long_enough (min_len ts) s"
  proof (clarify)
    fix hidx s assume m: "(hidx, s) \<in> set (tracks ts)"
    show "long_enough (min_len ts) s"
      unfolding long_enough_def
    proof (clarify)
      fix lo hi v assume "((lo, hi), v) \<in> set s"
      with m have "(lo, hi) \<in> set (TrackSet_intvs ts)"
        unfolding TrackSet_intvs_def by force
      with a show "min_len ts \<le> snd (lo, hi) - fst (lo, hi)"
        unfolding min_len_ok_def list_all_iff by blast
    qed
  qed
next
  assume a: "\<forall>(hidx, s) \<in> set (tracks ts). long_enough (min_len ts) s"
  show "min_len_ok ts"
    unfolding min_len_ok_def list_all_iff
  proof
    fix i assume "i \<in> set (TrackSet_intvs ts)"
    then obtain hidx s v where "(hidx, s) \<in> set (tracks ts)" "(i, v) \<in> set s"
      unfolding TrackSet_intvs_def by auto
    with a show "min_len ts \<le> snd i - fst i"
      unfolding long_enough_def by blast
  qed
qed

lemma fold_min_le: "fold min xs (a :: int) \<le> a"
proof (induction xs arbitrary: a)
  case Nil
  then show ?case by simp
next
  case (Cons x xs)
  have "fold min xs (min x a) \<le> min x a" by (rule Cons.IH)
  then show ?case by simp
qed

lemma fold_max_ge: "(a :: int) \<le> fold max xs a"
proof (induction xs arbitrary: a)
  case Nil
  then show ?case by simp
next
  case (Cons x xs)
  have "max x a \<le> fold max xs (max x a)" by (rule Cons.IH)
  then show ?case by simp
qed

lemma IntervalSet_add_long:
  assumes "long_enough n s" "snd intv - fst intv \<ge> n"
  shows "long_enough n (IntervalSet_add s intv val)"
proof -
  define ov where "ov = filter (\<lambda>(i, v). intv_overlap i intv) s"
  have "fold min (map (\<lambda>(i, v). fst i) ov) (fst intv) \<le> fst intv" by (rule fold_min_le)
  moreover have "snd intv \<le> fold max (map (\<lambda>(i, v). snd i) ov) (snd intv)" by (rule fold_max_ge)
  ultimately have "fold max (map (\<lambda>(i, v). snd i) ov) (snd intv)
                     - fold min (map (\<lambda>(i, v). fst i) ov) (fst intv) \<ge> n"
    using assms(2) by linarith
  with assms(1) show ?thesis
    unfolding IntervalSet_add_def Let_def ov_def[symmetric] long_enough_def
    by (auto simp: set_insort_key)
qed

lemma set_AList_update:
  "(k', v') \<in> set (AList.update k v al) \<Longrightarrow> (k', v') = (k, v) \<or> (k', v') \<in> set al"
  by (induction al) (auto split: if_splits)

lemma set_AList_delete: "(k', v') \<in> set (AList.delete k al) \<Longrightarrow> (k', v') \<in> set al"
  by (simp add: AList.delete_eq)

lemma min_len_ok_update:
  assumes "min_len_ok ts" "long_enough (min_len ts) s"
  shows "min_len_ok (ts\<lparr> tracks := AList.update hidx s (tracks ts) \<rparr>)"
  using assms unfolding min_len_ok_iff by (auto dest!: set_AList_update)

lemma min_len_ok_delete:
  assumes "min_len_ok ts"
  shows "min_len_ok (ts\<lparr> tracks := AList.delete hidx (tracks ts) \<rparr>)"
  using assms unfolding min_len_ok_iff by (auto dest!: set_AList_delete)

lemma min_len_ok_lookup:
  assumes "min_len_ok ts"
  shows "long_enough (min_len ts) (case map_of (tracks ts) hidx of None \<Rightarrow> [] | Some s \<Rightarrow> s)"
proof (cases "map_of (tracks ts) hidx")
  case None
  then show ?thesis by (simp add: long_enough_def)
next
  case (Some s)
  then have "(hidx, s) \<in> set (tracks ts)" by (rule map_of_SomeD)
  with assms Some show ?thesis unfolding min_len_ok_iff by auto
qed

lemma TrackSet_add_track_keeps:
  assumes "min_len_ok ts"
  shows "min_len_ok (TrackSet_add_track ts hidx intv width val)"
proof (cases "snd intv - fst intv \<ge> min_len ts")
  case True
  from IntervalSet_add_long[OF min_len_ok_lookup[OF assms] True]
  have "long_enough (min_len ts)
          (IntervalSet_add (case map_of (tracks ts) hidx of None \<Rightarrow> [] | Some s \<Rightarrow> s)
             intv (width, val))" .
  from min_len_ok_update[OF assms this] True show ?thesis
    by (simp add: TrackSet_add_track_def Let_def)
next
  case False
  with assms show ?thesis by (simp add: TrackSet_add_track_def)
qed

lemma IntervalSet_subtract_cases:
  assumes "(i, v) \<in> set (fst (IntervalSet_subtract s intv))"
  shows "(i, v) \<in> set s \<or> i \<in> set (snd (IntervalSet_subtract s intv))"
  using assms unfolding IntervalSet_subtract_def
  by (auto split: if_splits)

lemma fold_remove_short:
  assumes "(i, v) \<in> set (fold (\<lambda>j s. if snd j - fst j < n then IntervalSet_remove s j else s) new s)"
  shows "(i, v) \<in> set s \<and> \<not> (i \<in> set new \<and> snd i - fst i < n)"
  using assms
proof (induction new arbitrary: s)
  case Nil
  then show ?case by simp
next
  case (Cons j new)
  let ?s = "(if snd j - fst j < n then IntervalSet_remove s j else s)"
  from Cons.prems have "(i, v) \<in> set (fold (\<lambda>j s. if snd j - fst j < n
                                    then IntervalSet_remove s j else s) new ?s)"
    by simp
  from Cons.IH[OF this] have a: "(i, v) \<in> set ?s" and b: "\<not> (i \<in> set new \<and> snd i - fst i < n)"
    by simp_all
  from a have "(i, v) \<in> set s" and "\<not> (i = j \<and> snd i - fst i < n)"
    by (auto simp: IntervalSet_remove_def split: if_splits)
  with b show ?case by auto
qed

lemma TrackSet_subtract_keeps:
  assumes "min_len_ok ts"
  shows "min_len_ok (TrackSet_subtract ts hidx intv)"
proof (cases "map_of (tracks ts) hidx")
  case None
  with assms show ?thesis by (simp add: TrackSet_subtract_def)
next
  case (Some s0)
  define s1 where "s1 = fst (IntervalSet_subtract s0 intv)"
  define new where "new = snd (IntervalSet_subtract s0 intv)"
  define s2 where "s2 = fold (\<lambda>i s. if snd i - fst i < min_len ts
                                     then IntervalSet_remove s i else s) new s1"
  have s0: "long_enough (min_len ts) s0"
    using min_len_ok_lookup[OF assms, of hidx] Some by simp
  have "long_enough (min_len ts) s2"
    unfolding long_enough_def
  proof (clarify)
    fix a b v assume m: "((a, b), v) \<in> set s2"
    from fold_remove_short[OF m[unfolded s2_def]]
    have in1: "((a, b), v) \<in> set s1" and keep: "\<not> ((a, b) \<in> set new \<and> b - a < min_len ts)"
      by simp_all
    from IntervalSet_subtract_cases[OF in1[unfolded s1_def]]
    have "((a, b), v) \<in> set s0 \<or> (a, b) \<in> set new" unfolding new_def .
    then show "min_len ts \<le> snd (a, b) - fst (a, b)"
    proof
      assume "((a, b), v) \<in> set s0"
      with s0 show ?thesis by (auto simp: long_enough_def)
    next
      assume "(a, b) \<in> set new"
      with keep show ?thesis by simp
    qed
  qed
  from min_len_ok_update[OF assms this, of hidx] min_len_ok_delete[OF assms, of hidx]
  show ?thesis
    unfolding TrackSet_subtract_def Some s2_def new_def s1_def
    by (simp add: case_prod_beta Let_def)
qed

lemma fold_IntervalSet_add_long:
  assumes "long_enough n s" "long_enough n new"
  shows "long_enough n (fold (\<lambda>(intv, val) s. IntervalSet_add s intv val) new s)"
  using assms
proof (induction new arbitrary: s)
  case Nil
  then show ?case by simp
next
  case (Cons a new)
  obtain intv val where a: "a = (intv, val)" by (cases a)
  from Cons.prems(2) have l: "snd intv - fst intv \<ge> n" and r: "long_enough n new"
    unfolding a long_enough_def by auto
  from IntervalSet_add_long[OF Cons.prems(1) l] have "long_enough n (IntervalSet_add s intv val)" .
  from Cons.IH[OF this r] show ?case unfolding a by simp
qed

lemma TrackSet_merge_fold_keeps:
  assumes "min_len_ok ts" "\<forall>(hidx, s) \<in> set xs. long_enough (min_len ts) s"
  shows "min_len_ok
           (fold (\<lambda>(hidx, new_intv_set) ts.
                    let intv_set = (case map_of (tracks ts) hidx of None \<Rightarrow> [] | Some s \<Rightarrow> s)
                    in ts\<lparr> tracks := AList.update hidx
                                  (fold (\<lambda>(intv, val) s. IntervalSet_add s intv val)
                                     new_intv_set intv_set)
                                  (tracks ts) \<rparr>) xs ts)"
  using assms
proof (induction xs arbitrary: ts)
  case Nil
  then show ?case by simp
next
  case (Cons a xs)
  obtain hidx new where a: "a = (hidx, new)" by (cases a)
  let ?s = "fold (\<lambda>(intv, val) s. IntervalSet_add s intv val) new
              (case map_of (tracks ts) hidx of None \<Rightarrow> [] | Some s \<Rightarrow> s)"
  let ?ts = "ts\<lparr> tracks := AList.update hidx ?s (tracks ts) \<rparr>"
  from Cons.prems(2) have n: "long_enough (min_len ts) new"
    and r: "\<forall>(hidx, s) \<in> set xs. long_enough (min_len ts) s"
    unfolding a by auto
  have "long_enough (min_len ts) ?s"
    using fold_IntervalSet_add_long[OF min_len_ok_lookup[OF Cons.prems(1)] n] .
  from min_len_ok_update[OF Cons.prems(1) this] have ok: "min_len_ok ?ts" .
  have "\<forall>(hidx, s) \<in> set xs. long_enough (min_len ?ts) s" using r by simp
  from Cons.IH[OF ok this] show ?case unfolding a by (simp add: Let_def)
qed

lemma TrackSet_merge_keeps:
  assumes "min_len_ok ts" "\<forall>(hidx, s) \<in> set (tracks track_set). long_enough (min_len ts) s"
  shows "min_len_ok (TrackSet_merge ts track_set)"
  unfolding TrackSet_merge_def using TrackSet_merge_fold_keeps[OF assms] .

lemma TrackSet_merge_keeps_same_min_len:
  assumes "min_len_ok ts" "min_len_ok track_set" "min_len ts \<le> min_len track_set"
  shows "min_len_ok (TrackSet_merge ts track_set)"
proof (rule TrackSet_merge_keeps[OF assms(1)])
  from assms(2,3) show "\<forall>(hidx, s) \<in> set (tracks track_set). long_enough (min_len ts) s"
    unfolding min_len_ok_iff long_enough_def by fastforce
qed


subsection \<open>Track sets\<close>

lemma TrackSet_add_track_short:
  "snd intv - fst intv < min_len ts \<Longrightarrow> TrackSet_add_track ts hidx intv width val = ts"
  by (simp add: TrackSet_add_track_def)

text \<open>
  C10 (code at the failing input). A track set with minimum length 10 merges a track set
  with minimum length 0 that holds the interval \<open>(0, 5)\<close>: both satisfy the invariant, the
  result stores the interval of length 5 and does not. \<open>add_track\<close> on the same interval
  leaves the track set as it is.
\<close>

theorem TrackSet_merge_breaks_min_len:
  "min_len_ok (TrackSet_init 10 :: bool TrackSet)
   \<and> min_len_ok (TrackSet_add_track (TrackSet_init 0) 1 (0, 5) 1 False)
   \<and> TrackSet_merge (TrackSet_init 10) (TrackSet_add_track (TrackSet_init 0) 1 (0, 5) 1 False)
       = \<lparr> tracks = [(1, [((0, 5), 1, False)])], min_len = 10 \<rparr>
   \<and> \<not> min_len_ok (TrackSet_merge (TrackSet_init 10)
                        (TrackSet_add_track (TrackSet_init 0) 1 (0, 5) 1 False))
   \<and> TrackSet_add_track (TrackSet_init 10) 1 (0, 5) 1 False = TrackSet_init 10"
  by (simp add: TrackSet_merge_def TrackSet_init_def TrackSet_add_track_def IntervalSet_add_def
      min_len_ok_def TrackSet_intvs_def)

subsection \<open>Power fill\<close>

text \<open>
  C9 (code at the failing input). On the one-layer grid, a block of 100 by 12 without
  used tracks has exactly one fill track, of half-track index 3; the allocation divides
  by \<open>2 * remaining_vdd = 0\<close>.
\<close>

theorem power_fill_one_track_divides_by_zero:
  "get_power_fill_tracks example_grid 100 12 1 (TrackSet_init 0) 1 0 0 (- 1) 1 0
     = Inl ZeroDivisionError
   \<and> assign_supply [3] Map.empty = Inl ZeroDivisionError"
proof -
  have "get_power_fill_tracks example_grid 100 12 1 (TrackSet_init 0) 1 0 0 (- 1) 1 0
     = Inl ZeroDivisionError"
    by code_simp
  moreover have "assign_supply [3] Map.empty = Inl ZeroDivisionError"
    by (simp add: assign_supply_def)
  ultimately show ?thesis by simp
qed

text \<open>
  C2 (counterexample). On the one-layer grid, a block of 100 by 28 has the three fill
  tracks 1, 3 and 5; with a \<open>VDD\<close> wire on each of the tracks 2 and 4 every fill track
  inherits \<open>VDD\<close>, and three \<open>VDD\<close> wires and no \<open>VSS\<close> wire are emitted.
\<close>

theorem power_fill_unbalanced_counterexample:
  "map_sum id (\<lambda>r. (length (fst r), length (snd r)))
     (get_power_fill_tracks example_grid 100 28 1 example_used_tracks 1 0 0 (- 1) 1 0)
   = Inr (3, 0)"
  unfolding example_used_tracks_def by code_simp


subsection \<open>Where the supply tags come from\<close>

lemma subtract_fill_tags:
  "tags_ok st \<Longrightarrow> tags_ok (snd (subtract_fill fts st idxs sub_intv fill_type))"
proof (induction idxs arbitrary: fts st)
  case Nil
  then show ?case by simp
next
  case (Cons a idxs)
  let ?st = "(if st a = None \<and> (fill_type = ''VDD'' \<or> fill_type = ''VSS'')
              then st(a \<mapsto> fill_type) else st)"
  have "tags_ok ?st" using Cons.prems by (auto simp: tags_ok_def)
  from Cons.IH[OF this, of "TrackSet_subtract fts a sub_intv"] show ?case
    by (simp add: Let_def)
qed

lemma assign_adjacent_tags:
  "tags_ok st \<Longrightarrow> fill_type = ''VDD'' \<or> fill_type = ''VSS'' \<Longrightarrow>
   tags_ok (assign_adjacent fts st idxs fill_type)"
  by (induction idxs) (auto simp: tags_ok_def)

lemma subtract_used_tags:
  assumes "tags_ok (snd st)"
    and "subtract_used g layer_id sup_width fill_margin max_fill_hidx hidx item st = Inr st'"
  shows "tags_ok (snd st')"
proof -
  obtain wstart wstop wwidth fmargin fill_type
    where item: "item = ((wstart, wstop), (wwidth, (fmargin, fill_type)))"
    by (metis prod.exhaust)
  from assms(2) assms(1) show ?thesis
    unfolding subtract_used_def item Let_def
    by (auto simp: case_prod_beta split: sum.splits option.splits if_splits
        intro!: assign_adjacent_tags subtract_fill_tags)
qed

lemma subtract_all_tags:
  "tags_ok (snd st) \<Longrightarrow>
   subtract_all g layer_id sup_width fill_margin max_fill_hidx items st = Inr st' \<Longrightarrow>
   tags_ok (snd st')"
proof (induction items arbitrary: st)
  case Nil
  then show ?case by simp
next
  case (Cons a items)
  obtain hidx item where a: "a = (hidx, item)" by (cases a)
  from Cons.prems(2) obtain st1 where
    u: "subtract_used g layer_id sup_width fill_margin max_fill_hidx hidx item st = Inr st1"
    and r: "subtract_all g layer_id sup_width fill_margin max_fill_hidx items st1 = Inr st'"
    unfolding a by (auto split: sum.splits)
  from subtract_used_tags[OF Cons.prems(1) u] have "tags_ok (snd st1)" .
  from Cons.IH[OF this r] show ?case .
qed

subsection \<open>The positions of the distributed supply tracks\<close>

lemma next_vdd_step:
  assumes "0 < V" "V \<le> T"
  shows "next_vdd_of k T V + 1 \<le> next_vdd_of (k + 1) T V"
proof -
  have "((2 * k + 1) * T + V + 2 * V) div (2 * V) \<le> ((2 * (k + 1) + 1) * T + V) div (2 * V)"
    using assms by (intro zdiv_mono1) (simp_all add: algebra_simps)
  moreover have "((2 * k + 1) * T + V + 2 * V) div (2 * V) = ((2 * k + 1) * T + V) div (2 * V) + 1"
    using assms by (intro div_add_self2) simp
  ultimately show ?thesis by (simp add: next_vdd_of_def)
qed

lemma next_vdd_mono:
  assumes "0 < V" "0 \<le> T" "k \<le> k'"
  shows "next_vdd_of k T V \<le> next_vdd_of k' T V"
proof -
  have "(2 * k + 1) * T \<le> (2 * k' + 1) * T"
    using assms by (intro mult_right_mono) simp_all
  then show ?thesis
    unfolding next_vdd_of_def using assms by (intro zdiv_mono1) simp_all
qed

lemma next_vdd_last:
  assumes "0 < V" "V < T"
  shows "next_vdd_of (V - 1) T V < T"
proof -
  have "(2 * (V - 1) + 1) * T + V < T * (2 * V)"
    using assms by (simp add: algebra_simps)
  then show ?thesis
    unfolding next_vdd_of_def using assms int_div_less_iff[of "2 * V"] by simp
qed

lemma next_vdd_end:
  assumes "0 < V" "0 \<le> T"
  shows "T \<le> next_vdd_of V T V"
proof -
  have "T * (2 * V) \<le> (2 * V + 1) * T + V"
    using assms by (simp add: algebra_simps)
  then show ?thesis
    unfolding next_vdd_of_def using assms int_le_div_iff[of "2 * V"] by simp
qed

lemma assign_loop_fst: "map fst (assign_loop l st T V k nv c) = l"
  by (induction l arbitrary: k nv c) (auto split: option.splits)

lemma assign_loop_tag:
  "(h, t) \<in> set (assign_loop l st T V k nv c) \<Longrightarrow> st h = Some t' \<Longrightarrow> t = t'"
  by (induction l arbitrary: k nv c) (auto split: option.splits if_splits)

lemma assign_loop_vdd:
  assumes "0 < V" "V < T"
    and "c \<le> next_vdd_of k T V" and "k = 0 \<or> next_vdd_of (k - 1) T V < c"
    and "c + int (length (filter (\<lambda>h. st h = None) rest)) = T"
  shows "int (length (vdd_tracks (assign_loop rest st T V k (next_vdd_of k T V) c)))
           = V - k + int (length (filter (\<lambda>h. st h = Some ''VDD'') rest))"
  using assms(3-5)
proof (induction rest arbitrary: k c)
  case Nil
  then have c: "c = T" by simp
  have T0: "0 \<le> T" using assms(1,2) by simp
  have "k = V"
  proof (rule ccontr)
    assume ne: "k \<noteq> V"
    show False
    proof (cases "k < V")
      case True
      then have "next_vdd_of k T V \<le> next_vdd_of (V - 1) T V"
        using assms(1) T0 by (intro next_vdd_mono) simp_all
      with next_vdd_last[OF assms(1,2)] Nil.prems(1) c show False by simp
    next
      case False
      with ne have gt: "V < k" by simp
      with assms(1) have "k \<noteq> 0" by simp
      with Nil.prems(2) have lt: "next_vdd_of (k - 1) T V < c" by simp
      have "next_vdd_of V T V \<le> next_vdd_of (k - 1) T V"
        using assms(1) T0 gt by (intro next_vdd_mono) simp_all
      with next_vdd_end[OF assms(1) T0] lt c show False by simp
    qed
  qed
  then show ?case by (simp add: vdd_tracks_def)
next
  case (Cons h rest)
  show ?case
  proof (cases "st h")
    case (Some t)
    from Cons.prems Some have "c + int (length (filter (\<lambda>h. st h = None) rest)) = T" by simp
    from Cons.IH[OF Cons.prems(1,2) this] Some show ?thesis
      by (simp add: vdd_tracks_def)
  next
    case None
    from Cons.prems(3) None
    have cnt: "c + 1 + int (length (filter (\<lambda>h. st h = None) rest)) = T" by simp
    show ?thesis
    proof (cases "c = next_vdd_of k T V")
      case True
      have a: "c + 1 \<le> next_vdd_of (k + 1) T V"
        using next_vdd_step[of V T k] assms(1,2) True by simp
      have b: "k + 1 = 0 \<or> next_vdd_of (k + 1 - 1) T V < c + 1" using True by simp
      from Cons.IH[OF a b cnt] None True show ?thesis
        by (simp add: vdd_tracks_def)
    next
      case False
      with Cons.prems(1) have a: "c + 1 \<le> next_vdd_of k T V" by simp
      from Cons.prems(2) have b: "k = 0 \<or> next_vdd_of (k - 1) T V < c + 1" by auto
      from Cons.IH[OF a b cnt] None False show ?thesis
        by (simp add: vdd_tracks_def)
    qed
  qed
qed

lemma tracks_partition:
  "length (vdd_tracks asg) + length (vss_tracks asg) = length asg"
  by (induction asg) (auto simp: vdd_tracks_def vss_tracks_def)

lemma tag_partition:
  assumes "\<forall>h \<in> set l. st h = None \<or> st h = Some ''VDD'' \<or> st h = Some ''VSS''"
  shows "length l = length (filter (\<lambda>h. st h = None) l)
           + length (filter (\<lambda>h. st h = Some ''VDD'') l)
           + length (filter (\<lambda>h. st h = Some ''VSS'') l)"
  using assms by (induction l) auto


lemma assign_supply_Inr:
  assumes "assign_supply l st = Inr asg"
  shows "map fst asg = l" and "(h, t) \<in> set asg \<Longrightarrow> st h = Some t' \<Longrightarrow> t = t'"
proof -
  from assms obtain T V k nv c where asg: "asg = assign_loop l st T V k nv c"
    unfolding assign_supply_def Let_def by (auto split: if_splits)
  show "map fst asg = l" unfolding asg by (rule assign_loop_fst)
  show "(h, t) \<in> set asg \<Longrightarrow> st h = Some t' \<Longrightarrow> t = t'"
    unfolding asg by (rule assign_loop_tag)
qed

lemma assign_supply_balanced:
  assumes tags: "\<forall>h \<in> set l. st h = None \<or> st h = Some ''VDD'' \<or> st h = Some ''VSS''"
    and vdd: "int (length (filter (\<lambda>h. st h = Some ''VDD'') l)) < int (length l) div 2"
    and vss: "int (length (filter (\<lambda>h. st h = Some ''VSS'') l))
                < int (length l) - int (length l) div 2"
  shows "\<exists>asg. assign_supply l st = Inr asg
           \<and> int (length (vdd_tracks asg)) = int (length l) div 2
           \<and> int (length (vss_tracks asg)) = int (length l) - int (length l) div 2"
proof -
  define tot where "tot = int (length l)"
  define vc where "vc = int (length (filter (\<lambda>h. st h = Some ''VDD'') l))"
  define sc where "sc = int (length (filter (\<lambda>h. st h = Some ''VSS'') l))"
  define T where "T = tot - vc - sc"
  define V where "V = T - max (tot - tot div 2 - sc) 0"
  have S: "max (tot - tot div 2 - sc) 0 = tot - tot div 2 - sc"
    using vss unfolding tot_def sc_def by simp
  have V: "V = tot div 2 - vc" unfolding V_def S T_def by simp
  have Vpos: "0 < V" using vdd unfolding V tot_def vc_def by simp
  have VT: "V < T" using vss unfolding V_def S tot_def sc_def by simp
  have "assign_supply l st =
          (if 2 * V = 0 then Inl ZeroDivisionError
           else Inr (assign_loop l st T V 0 (next_vdd_of 0 T V) 0))"
    unfolding assign_supply_def Let_def V_def T_def tot_def vc_def sc_def ..
  with Vpos have eq: "assign_supply l st = Inr (assign_loop l st T V 0 (next_vdd_of 0 T V) 0)"
    by simp
  have "int (length l) = int (length (filter (\<lambda>h. st h = None) l)) + vc + sc"
    using tag_partition[OF tags] unfolding vc_def sc_def by simp
  then have cnt: "0 + int (length (filter (\<lambda>h. st h = None) l)) = T"
    unfolding T_def tot_def by simp
  have "int (length (vdd_tracks (assign_loop l st T V 0 (next_vdd_of 0 T V) 0)))
          = V - 0 + int (length (filter (\<lambda>h. st h = Some ''VDD'') l))"
  proof (intro assign_loop_vdd)
    show "0 \<le> next_vdd_of 0 T V"
      unfolding next_vdd_of_def using Vpos VT by (simp add: pos_imp_zdiv_nonneg_iff)
  qed (use Vpos VT cnt in simp_all)
  then have nv: "int (length (vdd_tracks (assign_loop l st T V 0 (next_vdd_of 0 T V) 0)))
          = tot div 2"
    unfolding V vc_def by simp
  have "length (assign_loop l st T V 0 (next_vdd_of 0 T V) 0) = length l"
    using assign_loop_fst[of l st T V 0 "next_vdd_of 0 T V" 0] by (metis length_map)
  with tracks_partition[of "assign_loop l st T V 0 (next_vdd_of 0 T V) 0"] nv
  have ns: "int (length (vss_tracks (assign_loop l st T V 0 (next_vdd_of 0 T V) 0)))
          = tot - tot div 2"
    unfolding tot_def by linarith
  from eq nv ns show ?thesis unfolding tot_def by simp
qed

text \<open>
  C2 (amended). Whenever the allocation returns, every fill track is emitted once and a
  track with an inherited supply tag is emitted with that tag. When the inherited tags
  are \<open>VDD\<close> or \<open>VSS\<close> and each supply has inherited fewer tracks than its share
  (\<open>total div 2\<close> for \<open>VDD\<close>, the rest for \<open>VSS\<close>), the allocation returns, the emitted
  \<open>VDD\<close> tracks are \<open>total div 2\<close> and the \<open>VSS\<close> tracks the rest, so the two numbers
  differ by at most 1.
\<close>

theorem assign_supply_keeps_tags_and_balances:
  "(assign_supply fill_hidx_list sup_type = Inr asg \<longrightarrow>
      map fst asg = fill_hidx_list
      \<and> (\<forall>hidx cur_type. (hidx, cur_type) \<in> set asg \<longrightarrow> sup_type hidx \<noteq> None
            \<longrightarrow> sup_type hidx = Some cur_type))
   \<and> ((\<forall>hidx \<in> set fill_hidx_list.
          sup_type hidx = None \<or> sup_type hidx = Some ''VDD'' \<or> sup_type hidx = Some ''VSS'')
       \<and> int (length (filter (\<lambda>hidx. sup_type hidx = Some ''VDD'') fill_hidx_list))
            < int (length fill_hidx_list) div 2
       \<and> int (length (filter (\<lambda>hidx. sup_type hidx = Some ''VSS'') fill_hidx_list))
            < int (length fill_hidx_list) - int (length fill_hidx_list) div 2
      \<longrightarrow> (\<exists>res. assign_supply fill_hidx_list sup_type = Inr res
             \<and> int (length (vdd_tracks res)) = int (length fill_hidx_list) div 2
             \<and> int (length (vss_tracks res))
                 = int (length fill_hidx_list) - int (length fill_hidx_list) div 2
             \<and> \<bar>int (length (vdd_tracks res)) - int (length (vss_tracks res))\<bar> \<le> 1))"
proof (intro conjI impI allI)
  assume a: "assign_supply fill_hidx_list sup_type = Inr asg"
  show "map fst asg = fill_hidx_list" using assign_supply_Inr(1)[OF a] .
  fix hidx cur_type
  assume m: "(hidx, cur_type) \<in> set asg" and n: "sup_type hidx \<noteq> None"
  from n obtain t' where t': "sup_type hidx = Some t'" by auto
  from assign_supply_Inr(2)[OF a m t'] t' show "sup_type hidx = Some cur_type" by simp
next
  assume h: "(\<forall>hidx \<in> set fill_hidx_list.
          sup_type hidx = None \<or> sup_type hidx = Some ''VDD'' \<or> sup_type hidx = Some ''VSS'')
       \<and> int (length (filter (\<lambda>hidx. sup_type hidx = Some ''VDD'') fill_hidx_list))
            < int (length fill_hidx_list) div 2
       \<and> int (length (filter (\<lambda>hidx. sup_type hidx = Some ''VSS'') fill_hidx_list))
            < int (length fill_hidx_list) - int (length fill_hidx_list) div 2"
  from assign_supply_balanced[of fill_hidx_list sup_type] h
  obtain res where r: "assign_supply fill_hidx_list sup_type = Inr res"
    "int (length (vdd_tracks res)) = int (length fill_hidx_list) div 2"
    "int (length (vss_tracks res)) = int (length fill_hidx_list) - int (length fill_hidx_list) div 2"
    by blast
  have "\<bar>int (length (vdd_tracks res)) - int (length (vss_tracks res))\<bar> \<le> 1"
    unfolding r(2,3) by linarith
  with r show "\<exists>res. assign_supply fill_hidx_list sup_type = Inr res
             \<and> int (length (vdd_tracks res)) = int (length fill_hidx_list) div 2
             \<and> int (length (vss_tracks res))
                 = int (length fill_hidx_list) - int (length fill_hidx_list) div 2
             \<and> \<bar>int (length (vdd_tracks res)) - int (length (vss_tracks res))\<bar> \<le> 1"
    by blast
qed

theorem assign_supply_keeps_tags_and_balances_witness:
  "assign_supply [3, 7, 11, 15] [3 \<mapsto> ''VDD'']
     = Inr [(3, ''VDD''), (7, ''VSS''), (11, ''VSS''), (15, ''VDD'')]
   \<and> vdd_tracks [(3, ''VDD''), (7, ''VSS''), (11, ''VSS''), (15, ''VDD'')] = [3, 15]
   \<and> vss_tracks [(3, ''VDD''), (7, ''VSS''), (11, ''VSS''), (15, ''VDD'')] = [7, 11]"
proof -
  have e: "assign_supply [3, 7, 11, 15] [3 \<mapsto> ''VDD'']
     = Inr [(3, ''VDD''), (7, ''VSS''), (11, ''VSS''), (15, ''VDD'')]"
    by (simp add: assign_supply_def next_vdd_of_def)
  from assign_supply_keeps_tags_and_balances[of "[3, 7, 11, 15]" "[3 \<mapsto> ''VDD'']"
      "[(3, ''VDD''), (7, ''VSS''), (11, ''VSS''), (15, ''VDD'')]"] e
  have "map fst [(3 :: int, ''VDD''), (7, ''VSS''), (11, ''VSS''), (15, ''VDD'')] = [3, 7, 11, 15]"
    and "\<exists>res. assign_supply [3, 7, 11, 15] [3 \<mapsto> ''VDD''] = Inr res
           \<and> int (length (vdd_tracks res)) = int (length [3 :: int, 7, 11, 15]) div 2"
    by simp_all
  with e show ?thesis by (simp add: vdd_tracks_def vss_tracks_def)
qed

end
